theory Spec2Isabelle
  imports Main "HOL-Library.Multiset"
begin

section \<open>Strings and objects of the dashboard script\<close>

text \<open>
  A JavaScript string is modelled as a \<^typ>\<open>string\<close> whose characters are the code units
  of the string; the model covers the code units below 256 (ASCII and Latin-1), which is
  what the dataset and the queries of the examples use. \<open>length\<close> is the \<open>.length\<close> of
  the source.

  An object literal used as a dictionary (\<open>JURISDICTIONS\<close>, \<open>adopted\<close>, \<open>cities\<close>,
  \<open>counties\<close>) is an association list in insertion order, which is the order
  \<open>Object.keys\<close>, \<open>Object.values\<close> and \<open>Object.entries\<close> enumerate for keys that are not
  array indices. \<open>obj_get\<close> finds the own properties only; a property read
  \<open>ob[k]\<close> is \<open>prop_read\<close> below.
\<close>

type_synonym 'v obj = "(string \<times> 'v) list"

definition obj_get :: "'v obj \<Rightarrow> string \<Rightarrow> 'v option" where
  "obj_get ob k = map_of ob k"

definition obj_keys :: "'v obj \<Rightarrow> string list" where
  "obj_keys ob = map fst ob"

definition obj_values :: "'v obj \<Rightarrow> 'v list" where
  "obj_values ob = map snd ob"

text \<open>
  A read \<open>ob[k]\<close> of a key that is not an own property goes on to \<open>Object.prototype\<close>,
  which every object literal inherits from: under the names below it finds a function
  (or, for \<open>__proto__\<close>, the prototype object), which is truthy and has none of the
  properties of the dataset's records. Under any other name the read is \<open>undefined\<close>.
\<close>

definition prototype_names :: "string list" where
  "prototype_names =
     [''constructor'', ''__defineGetter__'', ''__defineSetter__'', ''hasOwnProperty'',
      ''__lookupGetter__'', ''__lookupSetter__'', ''isPrototypeOf'', ''propertyIsEnumerable'',
      ''toString'', ''valueOf'', ''__proto__'', ''toLocaleString'']"

datatype 'v js_read = Own 'v | Inherited string | Undefined

definition prop_read :: "'v obj \<Rightarrow> string \<Rightarrow> 'v js_read" where
  "prop_read ob k =
     (case obj_get ob k of
        Some v \<Rightarrow> Own v
      | None \<Rightarrow> if k \<in> set prototype_names then Inherited k else Undefined)"

text \<open>\<open>ob[k] = v\<close>: an existing key keeps its position, a new key goes last.\<close>

fun obj_set :: "'v obj \<Rightarrow> string \<Rightarrow> 'v \<Rightarrow> 'v obj" where
  "obj_set [] k v = [(k, v)]"
| "obj_set ((k', v') # ob) k v =
     (if k' = k then (k, v) # ob else (k', v') # obj_set ob k v)"

text \<open>\<open>{...a, ...b}\<close>: the properties of \<open>a\<close>, then those of \<open>b\<close> assigned over them.\<close>

definition obj_spread :: "'v obj \<Rightarrow> 'v obj \<Rightarrow> 'v obj" where
  "obj_spread a b = foldl (\<lambda>ob (k, v). obj_set ob k v) a b"

text \<open>
  A JavaScript \<open>Set\<close> of strings is the list of its members in insertion order;
  \<open>add\<close> of a member that is already there changes nothing.
\<close>

definition set_add :: "'a list \<Rightarrow> 'a \<Rightarrow> 'a list" where
  "set_add s x = (if x \<in> set s then s else s @ [x])"

definition new_Set :: "'a list \<Rightarrow> 'a list" where
  "new_Set xs = foldl set_add [] xs"

subsection \<open>Characters\<close>

definition is_space :: "char \<Rightarrow> bool" where
  \<comment> \<open>the white space and line terminators of \<open>\s\<close> and \<open>trim\<close> below code unit 256\<close>
  "is_space c = (of_char c \<in> {9, 10, 11, 12, 13, 32, 160 :: nat})"

definition is_digit :: "char \<Rightarrow> bool" where
  \<comment> \<open>\<open>\d\<close>\<close>
  "is_digit c = (48 \<le> (of_char c :: nat) \<and> (of_char c :: nat) \<le> 57)"

definition lower_char :: "char \<Rightarrow> char" where
  "lower_char c =
     (let n = (of_char c :: nat) in
      if (65 \<le> n \<and> n \<le> 90) \<or> (192 \<le> n \<and> n \<le> 222 \<and> n \<noteq> 215)
      then char_of (n + 32) else c)"

definition toLowerCase :: "string \<Rightarrow> string" where
  "toLowerCase s = map lower_char s"

definition trim :: "string \<Rightarrow> string" where
  "trim s = rev (dropWhile is_space (rev (dropWhile is_space s)))"

fun startsWith :: "string \<Rightarrow> string \<Rightarrow> bool" where
  "startsWith s [] = True"
| "startsWith [] (c # cs) = False"
| "startsWith (x # xs) (c # cs) = (x = c \<and> startsWith xs cs)"

text \<open>\<open>s.includes(t)\<close>: \<open>t\<close> occurs in \<open>s\<close> as a contiguous run of code units.\<close>

fun str_includes :: "string \<Rightarrow> string \<Rightarrow> bool" where
  "str_includes [] t = (t = [])"
| "str_includes (x # xs) t = (startsWith (x # xs) t \<or> str_includes xs t)"

text \<open>\<open>s.split(',')\<close>: the pieces between the commas; the empty string gives one empty piece.\<close>

fun split_comma :: "string \<Rightarrow> string list" where
  "split_comma [] = [[]]"
| "split_comma (c # cs) =
     (if c = CHR '','' then [] # split_comma cs
      else (case split_comma cs of [] \<Rightarrow> [[c]] | p # ps \<Rightarrow> (c # p) # ps))"

section \<open>The dataset\<close>

text \<open>
  One record per (jurisdiction, code book). Fire-district entries carry only a year and
  amendments, so the other fields are optional, and the report reads the amendments
  through \<open>c.amendments?.length || 0\<close>, so they are optional too.
\<close>

record code_adoption =
  year :: "nat option"
  status :: "string option"
  effective :: "string option"
  amendments :: "string list option"

record fire_district =
  fd_name :: string
  fd_adopted :: "code_adoption obj"

record local_rec =
  local_type :: "string option"
  local_adopted :: "code_adoption obj"
  local_note :: "string option"
  fireDistricts :: "fire_district list option"

record state_rec =
  name :: string
  abbr :: string
  region :: string
  stateNote :: string
  adopted :: "code_adoption obj"
  cities :: "local_rec obj"
  counties :: "local_rec obj"

subsection \<open>The fallback entries (fallback-states.js)\<close>


text \<open>The object literal assigned for a missing state; the region is a dash in the source.\<close>

definition stub_entry :: "string \<times> string \<Rightarrow> state_rec" where
  "stub_entry s =
     \<lparr> name = snd s, abbr = fst s, region = ''-'',
       stateNote = ''Contact your local building department for current adopted codes. Data pending detailed research.'',
       adopted =
         [(''IBC'', \<lparr> year = Some 2018, status = Some ''adopted'', effective = Some ''Varies'',
                     amendments = Some [''Contact local AHJ for specific amendments''] \<rparr>),
          (''NEC'', \<lparr> year = Some 2020, status = Some ''adopted'', effective = Some ''Varies'',
                     amendments = Some [] \<rparr>)],
       cities = [], counties = [] \<rparr>"

text \<open>\<open>if (!JURISDICTIONS[s.abbr])\<close>: only an undefined read is falsy.\<close>

definition fallback_step :: "state_rec obj \<Rightarrow> string \<times> string \<Rightarrow> state_rec obj" where
  "fallback_step J s =
     (case prop_read J (fst s) of
        Undefined \<Rightarrow> obj_set J (fst s) (stub_entry s)
      | Own _ \<Rightarrow> J
      | Inherited _ \<Rightarrow> J)"

definition fill_states :: "(string \<times> string) list \<Rightarrow> state_rec obj \<Rightarrow> state_rec obj" where
  "fill_states entries J = foldl fallback_step J entries"


section \<open>Search (buildSuggestions)\<close>

text \<open>
  The pattern \<open>/\s+\d{5}(-\d{4})?$/\<close>. \<open>zip_tail\<close> says that a string is exactly five
  digits, optionally followed by a hyphen and four digits; \<open>zip_match_here\<close> says that the
  pattern matches from the first character to the end of the string (white space and
  digits are disjoint, so the greedy \<open>\s+\<close> takes the whole run of white space).
\<close>

definition zip_tail :: "string \<Rightarrow> bool" where
  "zip_tail s =
     ((length s = 5 \<and> list_all is_digit s) \<or>
      (length s = 10 \<and> list_all is_digit (take 5 s) \<and> s ! 5 = CHR ''-'' \<and>
       list_all is_digit (drop 6 s)))"

definition zip_match_here :: "string \<Rightarrow> bool" where
  "zip_match_here s =
     (let r = dropWhile is_space s in length r < length s \<and> zip_tail r)"

text \<open>
  \<open>p.replace(/\s+\d{5}(-\d{4})?$/, '')\<close>: the leftmost position where the pattern matches
  is found, and the match, which runs to the end, is removed.
\<close>

fun strip_zip :: "string \<Rightarrow> string" where
  "strip_zip [] = []"
| "strip_zip (c # cs) = (if zip_match_here (c # cs) then [] else c # strip_zip cs)"

definition rawParts :: "string \<Rightarrow> string list" where
  "rawParts query = map (\<lambda>p. trim (strip_zip (trim p))) (split_comma query)"

definition search_terms :: "string \<Rightarrow> string list" where
  "search_terms query = filter (\<lambda>p. 2 \<le> length p) (new_Set (rawParts query))"

text \<open>A suggestion, as pushed onto \<open>results\<close>; \<open>null\<close> is \<open>None\<close>.\<close>

record suggestion =
  label :: string
  sub :: string
  rtype :: string
  state :: string
  city :: "string option"
  county :: "string option"

text \<open>The pair \<open>(results, seen)\<close> of the loop, and the guarded push.\<close>

type_synonym search_acc = "suggestion list \<times> string list"

definition push_unseen :: "string \<Rightarrow> suggestion \<Rightarrow> search_acc \<Rightarrow> search_acc" where
  "push_unseen key s acc =
     (if key \<in> set (snd acc) then acc else (fst acc @ [s], set_add (snd acc) key))"

text \<open>The three object literals pushed onto \<open>results\<close>, and their \<open>seen\<close> keys.\<close>

definition state_result :: "state_rec \<Rightarrow> suggestion" where
  "state_result st =
     \<lparr> label = name st, sub = abbr st, rtype = ''STATE'', state = abbr st,
       city = None, county = None \<rparr>"

definition city_result :: "state_rec \<Rightarrow> string \<Rightarrow> suggestion" where
  "city_result st c =
     \<lparr> label = c, sub = name st, rtype = ''CITY'', state = abbr st,
       city = Some c, county = None \<rparr>"

definition county_result :: "state_rec \<Rightarrow> string \<Rightarrow> suggestion" where
  "county_result st c =
     \<lparr> label = c, sub = name st, rtype = ''COUNTY'', state = abbr st,
       city = None, county = Some c \<rparr>"

definition state_key :: "state_rec \<Rightarrow> string" where
  "state_key st = ''state:'' @ abbr st"

definition city_key :: "state_rec \<Rightarrow> string \<Rightarrow> string" where
  "city_key st c = ''city:'' @ abbr st @ '':'' @ c"

definition county_key :: "state_rec \<Rightarrow> string \<Rightarrow> string" where
  "county_key st c = ''county:'' @ abbr st @ '':'' @ c"

definition state_hit :: "string \<Rightarrow> state_rec \<Rightarrow> search_acc \<Rightarrow> search_acc" where
  "state_hit t st acc =
     (if str_includes (toLowerCase (name st)) t \<or> toLowerCase (abbr st) = t
      then push_unseen (state_key st) (state_result st) acc
      else acc)"

definition city_hit :: "string \<Rightarrow> state_rec \<Rightarrow> search_acc \<Rightarrow> string \<Rightarrow> search_acc" where
  "city_hit t st acc c =
     (if str_includes (toLowerCase c) t
      then push_unseen (city_key st c) (city_result st c) acc
      else acc)"

definition county_hit :: "string \<Rightarrow> state_rec \<Rightarrow> search_acc \<Rightarrow> string \<Rightarrow> search_acc" where
  "county_hit t st acc c =
     (if str_includes (toLowerCase c) t
      then push_unseen (county_key st c) (county_result st c) acc
      else acc)"

text \<open>The body of the inner \<open>forEach\<close> over the states, for the lower-cased term \<open>t\<close>.\<close>

definition visit_state :: "string \<Rightarrow> search_acc \<Rightarrow> state_rec \<Rightarrow> search_acc" where
  "visit_state t acc st =
     foldl (county_hit t st)
       (foldl (city_hit t st) (state_hit t st acc) (obj_keys (cities st)))
       (obj_keys (counties st))"

definition visit_term :: "state_rec obj \<Rightarrow> search_acc \<Rightarrow> string \<Rightarrow> search_acc" where
  "visit_term J acc term = foldl (visit_state (toLowerCase term)) acc (obj_values J)"

definition buildSuggestions :: "state_rec obj \<Rightarrow> string \<Rightarrow> suggestion list" where
  "buildSuggestions J query =
     (if length query < 2 then []
      else take 8 (fst (foldl (visit_term J) ([], []) (search_terms query))))"

section \<open>The sorted state list (statesSorted)\<close>

text \<open>
  \<open>Array.prototype.sort\<close> with a comparison function is a stable sort: an insertion sort
  that puts an element before the first one it does not compare greater than computes
  the same array whenever the comparison is consistent. \<open>String.prototype.localeCompare\<close>
  belongs to the host, so it is the parameter \<open>lc\<close>.
\<close>

fun insert_by :: "('a \<Rightarrow> 'a \<Rightarrow> int) \<Rightarrow> 'a \<Rightarrow> 'a list \<Rightarrow> 'a list" where
  "insert_by cmp x [] = [x]"
| "insert_by cmp x (y # ys) =
     (if cmp x y \<le> 0 then x # y # ys else y # insert_by cmp x ys)"

definition js_sort :: "('a \<Rightarrow> 'a \<Rightarrow> int) \<Rightarrow> 'a list \<Rightarrow> 'a list" where
  "js_sort cmp xs = foldr (insert_by cmp) xs []"

definition statesSorted :: "(string \<Rightarrow> string \<Rightarrow> int) \<Rightarrow> state_rec obj \<Rightarrow> state_rec list" where
  "statesSorted lc J = js_sort (\<lambda>a b. lc (name a) (name b)) (obj_values J)"

section \<open>The report (showReport)\<close>

subsection \<open>The source catalogue\<close>

definition CODE_SOURCES :: "string obj" where
  "CODE_SOURCES =
   [(''IBC'', ''icc_chart''), (''IRC'', ''icc_chart''), (''IFC'', ''icc_chart''),
    (''IMC'', ''icc_chart''), (''IPC'', ''icc_chart''), (''IECC'', ''icc_chart''),
    (''IEBC'', ''icc_chart''), (''IGCC'', ''icc_chart''), (''IFGC'', ''icc_chart''),
    (''NEC'', ''nec_nfpa''),
    (''NFPA1'', ''nfpa_atc''), (''NFPA13'', ''nfpa_atc''), (''NFPA72'', ''nfpa_atc''),
    (''UPC'', ''iapmo_upc''), (''UMC'', ''iapmo_umc''),
    (''CBC'', ''ca_bsc''), (''CMC'', ''ca_bsc''), (''CPC'', ''ca_bsc''), (''CEC'', ''ca_bsc''),
    (''NYSBC'', ''nys_dos''), (''OSSC'', ''or_bcd''), (''WSEC'', ''wa_sbcc'')]"

text \<open>
  An entry of \<open>DATA_SOURCES\<close>: the URL, the optional per-state URL function and the code
  books the source covers. The icon, label and note are display text only.
\<close>

record data_source =
  url :: string
  stateUrl :: "(string \<Rightarrow> string) option"
  codes :: "string list"

definition becp_stateUrl :: "string \<Rightarrow> string" where
  "becp_stateUrl a = ''https://www.energycodes.gov/status/states/'' @ toLowerCase a"

definition DATA_SOURCES :: "data_source obj" where
  "DATA_SOURCES =
   [(''icc_chart'',
       \<lparr> url = ''https://www.iccsafe.org/wp-content/uploads/Master-I-Code-Adoption-Chart.pdf'',
         stateUrl = None,
         codes = [''IBC'', ''IRC'', ''IFC'', ''IMC'', ''IPC'', ''IECC'', ''IEBC'', ''IGCC'', ''IFGC''] \<rparr>),
    (''nec_nfpa'',
       \<lparr> url = ''https://www.nfpa.org/education-and-research/electrical/nec-enforcement-maps'',
         stateUrl = None, codes = [''NEC''] \<rparr>),
    (''becp'',
       \<lparr> url = ''https://www.energycodes.gov/status'',
         stateUrl = Some becp_stateUrl, codes = [''IECC''] \<rparr>),
    (''nfpa_atc'',
       \<lparr> url = ''https://www.nfpa.org/Codes-and-Standards/Adoption-Tracking-Center'',
         stateUrl = None, codes = [''NFPA1'', ''NFPA13'', ''NFPA72''] \<rparr>),
    (''municode'',
       \<lparr> url = ''https://library.municode.com/'', stateUrl = None, codes = [] \<rparr>),
    (''iapmo_upc'',
       \<lparr> url = ''https://www.iapmo.org/upc/'', stateUrl = None, codes = [''UPC''] \<rparr>),
    (''iapmo_umc'',
       \<lparr> url = ''https://www.iapmo.org/umc/'', stateUrl = None, codes = [''UMC''] \<rparr>),
    (''ca_bsc'',
       \<lparr> url = ''https://www.dgs.ca.gov/BSC/Codes'', stateUrl = None,
         codes = [''CBC'', ''CMC'', ''CPC'', ''CEC''] \<rparr>),
    (''nys_dos'',
       \<lparr> url = ''https://dos.ny.gov/building-codes'', stateUrl = None, codes = [''NYSBC''] \<rparr>),
    (''or_bcd'',
       \<lparr> url = ''https://www.oregon.gov/bcd/codes-stand/Pages/oregon-codes-standards.aspx'',
         stateUrl = None, codes = [''OSSC''] \<rparr>),
    (''wa_sbcc'',
       \<lparr> url = ''https://sbcc.wa.gov/state-building-codes'', stateUrl = None,
         codes = [''WSEC''] \<rparr>)]"

subsection \<open>Code cards (renderCodeCard)\<close>

text \<open>
  What a card shows of a code book: its key, the edition year, the number printed after
  "Local Amendments" and the resolved source URL (\<open>None\<close> when \<open>sourceUrl\<close> is null or
  undefined and no link is drawn). When \<open>CODE_SOURCES[key]\<close> or \<open>DATA_SOURCES[sourceKey]\<close>
  is an inherited member, no \<open>url\<close> is found and \<open>sourceUrl\<close> stays undefined.
\<close>

record code_card =
  card_key :: string
  card_year :: "nat option"
  card_amendments :: nat
  sourceUrl :: "string option"

definition renderCodeCard :: "string \<Rightarrow> code_adoption \<Rightarrow> string \<Rightarrow> code_card" where
  "renderCodeCard key code stateAbbr =
     (let generic = (case prop_read CODE_SOURCES key of
                       Own sourceKey \<Rightarrow>
                         (if sourceKey = [] then None
                          else (case prop_read DATA_SOURCES sourceKey of
                                  Own sourceDef \<Rightarrow> Some (url sourceDef)
                                | Inherited _ \<Rightarrow> None
                                | Undefined \<Rightarrow> None))
                     | Inherited _ \<Rightarrow> None
                     | Undefined \<Rightarrow> None);
          becp = obj_get DATA_SOURCES ''becp''
      in \<lparr> card_key = key,
           card_year = year code,
           card_amendments = (case amendments code of None \<Rightarrow> 0 | Some a \<Rightarrow> length a),
           sourceUrl =
             (if key = ''IECC'' \<and> stateAbbr \<noteq> []
              then (case Option.bind becp stateUrl of
                      Some f \<Rightarrow> Some (f stateAbbr)
                    | None \<Rightarrow> generic)
              else generic) \<rparr>)"

subsection \<open>The sources panel (buildSourcesPanel)\<close>

record source_row =
  row_source :: string
  row_url :: string
  relevantCodes :: "string list"

text \<open>
  A member of the set \<open>neededSources\<close>: a source key, or the inherited member that
  \<open>CODE_SOURCES[codeKey]\<close> finds for a code key that is a name of \<open>Object.prototype\<close>
  (the members found under different names are different objects).
\<close>

datatype source_ref = Key string | Member string

definition add_code_sources :: "source_ref list \<Rightarrow> string \<Rightarrow> source_ref list" where
  "add_code_sources ns codeKey =
     (let ns1 = (case prop_read CODE_SOURCES codeKey of
                   Own sk \<Rightarrow> if sk = [] then ns else set_add ns (Key sk)
                 | Inherited m \<Rightarrow> set_add ns (Member m)
                 | Undefined \<Rightarrow> ns)
      in if codeKey = ''IECC'' then set_add ns1 (Key ''becp'') else ns1)"

definition icc_chart_codes :: "string list" where
  "icc_chart_codes = (case obj_get DATA_SOURCES ''icc_chart'' of Some src \<Rightarrow> codes src | None \<Rightarrow> [])"

definition neededSources :: "bool \<Rightarrow> code_adoption obj \<Rightarrow> source_ref list" where
  "neededSources isLocal adoptedCodes =
     (let ns1 = foldl add_code_sources [] (obj_keys adoptedCodes);
          hasIccCode = list_ex (\<lambda>k. k \<in> set icc_chart_codes) (obj_keys adoptedCodes);
          ns2 = (if hasIccCode then set_add ns1 (Key ''icc_chart'') else ns1)
      in if isLocal then set_add ns2 (Key ''municode'') else ns2)"

datatype js_error = TypeError

text \<open>
  A row of the panel. \<open>DATA_SOURCES[sk]\<close> is undefined for a key without an entry and for
  a member that is not a string (its string form is no key of the table), and then
  nothing is drawn. Were the read to find an inherited member, \<open>src.url\<close> would be
  undefined and \<open>url.replace\<close> would throw.
\<close>

definition source_row_of ::
    "state_rec \<Rightarrow> code_adoption obj \<Rightarrow> source_ref \<Rightarrow> js_error + source_row option" where
  "source_row_of st adoptedCodes ref =
     (case ref of
        Member _ \<Rightarrow> Inr None
      | Key sk \<Rightarrow>
          (case prop_read DATA_SOURCES sk of
             Undefined \<Rightarrow> Inr None
           | Inherited _ \<Rightarrow> Inl TypeError
           | Own src \<Rightarrow>
               Inr (Some
                 \<lparr> row_source = sk,
                   row_url = (case stateUrl src of
                                Some f \<Rightarrow> if sk = ''becp'' \<and> abbr st \<noteq> [] then f (abbr st) else url src
                              | None \<Rightarrow> url src),
                   relevantCodes = filter (\<lambda>k. k \<in> set (codes src)) (obj_keys adoptedCodes) \<rparr>)))"

text \<open>The rows in order; the first exception ends the \<open>map\<close>.\<close>

fun collect_rows :: "(js_error + source_row option) list \<Rightarrow> js_error + source_row list" where
  "collect_rows [] = Inr []"
| "collect_rows (Inl e # rest) = Inl e"
| "collect_rows (Inr r # rest) =
     (case collect_rows rest of
        Inl e \<Rightarrow> Inl e
      | Inr rs \<Rightarrow> Inr (case r of None \<Rightarrow> rs | Some row \<Rightarrow> row # rs))"

record sources_panel =
  needed :: "source_ref list"
  rows :: "source_row list"

definition buildSourcesPanel ::
    "state_rec \<Rightarrow> bool \<Rightarrow> code_adoption obj \<Rightarrow> js_error + sources_panel" where
  "buildSourcesPanel st isLocal adoptedCodes =
     (let ns = neededSources isLocal adoptedCodes
      in case collect_rows (map (source_row_of st adoptedCodes) ns) of
           Inl e \<Rightarrow> Inl e
         | Inr rs \<Rightarrow> Inr \<lparr> needed = ns, rows = rs \<rparr>)"

subsection \<open>The report\<close>

text \<open>
  The values \<open>showReport\<close> computes and then prints into the markup: the breadcrumb, the
  title, whether the scope is local, the counts of codes, amendments and fire districts,
  the amendment banner (with the count it prints, when it is shown), the code cards of
  the active scope, the state-level cards shown under a local scope, and the sources
  panel. The upper-cased type label and the notes are text that is copied into the markup
  and are not part of the record.
\<close>

record report =
  breadcrumb :: "string list"
  displayName :: string
  scope_is_local :: bool
  codeCount :: nat
  amendCount :: nat
  fireDistrictCount :: nat
  hasMajorAmendments :: bool
  amendBanner :: "nat option"
  code_cards :: "code_card list"
  state_cards :: "code_card list"
  footer :: sources_panel

definition amendment_total :: "code_adoption obj \<Rightarrow> nat" where
  "amendment_total adoptedCodes =
     foldl (\<lambda>sum c. sum + (case amendments c of None \<Rightarrow> 0 | Some a \<Rightarrow> length a)) 0
       (obj_values adoptedCodes)"

text \<open>
  \<open>local\<close> is \<open>null\<close> or \<open>undefined\<close> when \<open>None\<close>, and so is \<open>localName\<close>; an object
  is truthy and a string is truthy unless it is empty. With \<open>state\<close> undefined the first
  property read, \<open>state.name\<close>, throws.
\<close>

definition showReport ::
    "state_rec option \<Rightarrow> local_rec option \<Rightarrow> string option \<Rightarrow> js_error + report" where
  "showReport state_arg local_arg localName =
     (case state_arg of
        None \<Rightarrow> Inl TypeError
      | Some st \<Rightarrow>
          (let isLocal = (local_arg \<noteq> None \<and> localName \<noteq> None \<and> localName \<noteq> Some []);
               adoptedCodes = (if isLocal then local_adopted (the local_arg) else adopted st);
               codeCount = length (obj_keys adoptedCodes);
               amendCount = amendment_total adoptedCodes;
               fds = (if isLocal
                      then (case fireDistricts (the local_arg) of Some l \<Rightarrow> l | None \<Rightarrow> [])
                      else []);
               hasMajor = (3 < amendCount);
               allAdoptedForSources =
                 (if isLocal then obj_spread (adopted st) (local_adopted (the local_arg))
                  else adoptedCodes)
           in case buildSourcesPanel st isLocal allAdoptedForSources of
                Inl e \<Rightarrow> Inl e
              | Inr panel \<Rightarrow>
                  Inr \<lparr> breadcrumb = (if isLocal then [''US'', name st, the localName]
                                      else [''US'', name st]),
                        displayName = (if isLocal then the localName else name st),
                        scope_is_local = isLocal,
                        codeCount = codeCount,
                        amendCount = amendCount,
                        fireDistrictCount = length fds,
                        hasMajorAmendments = hasMajor,
                        amendBanner = (if hasMajor then Some amendCount else None),
                        code_cards = map (\<lambda>(k, v). renderCodeCard k v (abbr st)) adoptedCodes,
                        state_cards =
                          (if isLocal \<and> 0 < length (obj_keys (adopted st))
                           then map (\<lambda>(k, v). renderCodeCard k v (abbr st)) (adopted st)
                           else []),
                        footer = panel \<rparr>))"

text \<open>
  \<open>selectSuggestion\<close>. When \<open>JURISDICTIONS[s.state]\<close> is undefined, or an inherited member,
  \<open>state.cities\<close> and \<open>state.counties\<close> are read from undefined, or are undefined
  themselves, and the read of \<open>[s.city]\<close> or \<open>[s.county]\<close> throws before \<open>showReport\<close> is
  entered; without a city or county \<open>showReport\<close> is entered, where \<open>state.name\<close> throws for
  an undefined state and \<open>Object.keys(state.adopted)\<close> throws for an inherited member,
  whose \<open>adopted\<close> is undefined. When \<open>state.cities[s.city]\<close> is an inherited member,
  \<open>showReport\<close> takes it for the local record (it is truthy, and so is the name), its
  \<open>adopted\<close> is undefined and \<open>Object.keys\<close> throws.
\<close>

definition select_local ::
    "state_rec \<Rightarrow> local_rec obj \<Rightarrow> string \<Rightarrow> js_error + report" where
  "select_local sr locals nm =
     (case prop_read locals nm of
        Own loc \<Rightarrow> showReport (Some sr) (Some loc) (Some nm)
      | Undefined \<Rightarrow> showReport (Some sr) None (Some nm)
      | Inherited _ \<Rightarrow> Inl TypeError)"

definition selectSuggestion :: "state_rec obj \<Rightarrow> suggestion \<Rightarrow> js_error + report" where
  "selectSuggestion J s =
     (let st = prop_read J (state s) in
      if city s \<noteq> None \<and> city s \<noteq> Some []
      then (case st of
              Own sr \<Rightarrow> select_local sr (cities sr) (the (city s))
            | Undefined \<Rightarrow> Inl TypeError
            | Inherited _ \<Rightarrow> Inl TypeError)
      else if county s \<noteq> None \<and> county s \<noteq> Some []
      then (case st of
              Own sr \<Rightarrow> select_local sr (counties sr) (the (county s))
            | Undefined \<Rightarrow> Inl TypeError
            | Inherited _ \<Rightarrow> Inl TypeError)
      else (case st of
              Own sr \<Rightarrow> showReport (Some sr) None None
            | Undefined \<Rightarrow> showReport None None None
            | Inherited _ \<Rightarrow> Inl TypeError))"

section \<open>Specification-side notions\<close>

text \<open>
  The definitions of this section do not come from the script. They say, in the words of
  the specification, what the functions above are compared with.
\<close>

subsection \<open>Tokens of a query\<close>

text \<open>
  A piece ends with a postal code of \<open>k\<close> characters when its last \<open>k\<close> characters are
  a 5-digit code (\<open>k = 5\<close>) or a 5-digit code, a hyphen and 4 digits (\<open>k = 10\<close>), and the
  character before them is white space, as in "AZ 85001". Stripping the suffix removes
  those \<open>k\<close> characters; the white space before them goes when the piece is trimmed.
\<close>

definition ends_with_postal :: "nat \<Rightarrow> string \<Rightarrow> bool" where
  "ends_with_postal k p =
     (k < length p \<and> is_space (p ! (length p - k - 1)) \<and> length (drop (length p - k) p) = k \<and>
      zip_tail (drop (length p - k) p))"

definition spec_strip_postal :: "string \<Rightarrow> string" where
  "spec_strip_postal p =
     (if ends_with_postal 5 p then take (length p - 5) p
      else if ends_with_postal 10 p then take (length p - 10) p
      else p)"

text \<open>De-duplication that keeps the first of equal tokens.\<close>

definition dedup_first :: "'a list \<Rightarrow> 'a list" where
  "dedup_first xs = rev (remdups (rev xs))"

definition spec_tokens :: "string \<Rightarrow> string list" where
  "spec_tokens query =
     filter (\<lambda>t. \<not> length t < 2)
       (dedup_first (map (\<lambda>p. trim (spec_strip_postal (trim p))) (split_comma query)))"

text \<open>The names a label can be taken from: state names, city keys and county keys.\<close>

definition store_names :: "state_rec obj \<Rightarrow> string set" where
  "store_names J =
     (\<Union>st \<in> set (obj_values J).
        {name st} \<union> set (obj_keys (cities st)) \<union> set (obj_keys (counties st)))"

definition occurs_in :: "string \<Rightarrow> string \<Rightarrow> bool" where
  "occurs_in z s = (\<exists>a b. s = a @ z @ b)"

subsection \<open>Discovery order and identity of results\<close>

text \<open>
  The matches of one lower-cased term in one state, each with its key: the state itself,
  then its matching cities, then its matching counties.
\<close>

definition state_candidates :: "string \<Rightarrow> state_rec \<Rightarrow> (string \<times> suggestion) list" where
  "state_candidates t st =
     (if str_includes (toLowerCase (name st)) t \<or> toLowerCase (abbr st) = t
      then [(state_key st, state_result st)] else []) @
     map (\<lambda>c. (city_key st c, city_result st c))
       (filter (\<lambda>c. str_includes (toLowerCase c) t) (obj_keys (cities st))) @
     map (\<lambda>c. (county_key st c, county_result st c))
       (filter (\<lambda>c. str_includes (toLowerCase c) t) (obj_keys (counties st)))"

text \<open>All matches: term by term, and for each term state by state in insertion order.\<close>

definition discovery_order :: "state_rec obj \<Rightarrow> string list \<Rightarrow> (string \<times> suggestion) list" where
  "discovery_order J terms =
     concat (map (\<lambda>term. concat (map (state_candidates (toLowerCase term)) (obj_values J))) terms)"

text \<open>The first occurrence of every key, in order.\<close>

fun first_occurrences :: "string list \<Rightarrow> (string \<times> 'a) list \<Rightarrow> 'a list" where
  "first_occurrences seen [] = []"
| "first_occurrences seen ((k, x) # rest) =
     (if k \<in> set seen then first_occurrences seen rest
      else x # first_occurrences (seen @ [k]) rest)"

text \<open>The identity of a result: match kind, state code, local name if any.\<close>

definition identity :: "suggestion \<Rightarrow> string \<times> string \<times> string option" where
  "identity s = (rtype s, state s, (case city s of Some c \<Rightarrow> Some c | None \<Rightarrow> county s))"

text \<open>The key under which the search remembers a result, read off its identity.\<close>

definition identity_key :: "string \<times> string \<times> string option \<Rightarrow> string" where
  "identity_key i =
     (case i of (kind, st, loc) \<Rightarrow>
        if kind = ''STATE'' then ''state:'' @ st
        else if kind = ''CITY'' then ''city:'' @ st @ '':'' @ (case loc of Some c \<Rightarrow> c | None \<Rightarrow> [])
        else ''county:'' @ st @ '':'' @ (case loc of Some c \<Rightarrow> c | None \<Rightarrow> []))"

subsection \<open>Amendment lists\<close>

definition amendment_list :: "code_adoption \<Rightarrow> string list" where
  "amendment_list c = (case amendments c of Some a \<Rightarrow> a | None \<Rightarrow> [])"

section \<open>An excerpt of the dataset\<close>

text \<open>Alabama as the dataset has it, and two of the fallback states.\<close>

definition adoption :: "nat \<Rightarrow> string \<Rightarrow> string list \<Rightarrow> code_adoption" where
  "adoption y eff am =
     \<lparr> year = Some y, status = Some ''adopted'', effective = Some eff, amendments = Some am \<rparr>"

definition birmingham :: local_rec where
  "birmingham =
     \<lparr> local_type = Some ''city'',
       local_adopted =
         [(''IBC'', adoption 2018 ''2021-03-01''
             [''Chapter 11 Accessibility: enhanced requirements beyond ADAAG'',
              ''Section 3409 historic preservation overlay'']),
          (''IRC'', adoption 2018 ''2021-03-01'' []),
          (''IFC'', adoption 2021 ''2023-01-01''
             [''Sec 903.2.1.2: Sprinklers required in A-2 occupancies >3,000 sq ft'']),
          (''NEC'', adoption 2020 ''2021-07-01''
             [''Art. 210 AFCI requirements expanded to all circuits'']),
          (''IECC'', adoption 2018 ''2021-03-01'' []),
          (''IEBC'', adoption 2018 ''2021-03-01'' [])],
       local_note = None,
       fireDistricts = Some
         [\<lparr> fd_name = ''Birmingham Fire District 1 (Downtown)'',
            fd_adopted =
              [(''IFC'', \<lparr> year = Some 2021, status = None, effective = None,
                  amendments = Some
                    [''High-rise buildings: sprinklers required in all floors'',
                     ''Annual inspection requirements for all commercial''] \<rparr>)] \<rparr>] \<rparr>"

definition mobile :: local_rec where
  "mobile =
     \<lparr> local_type = Some ''city'',
       local_adopted =
         [(''IBC'', adoption 2018 ''2020-06-01''
             [''Wind zone amendments: 130 mph design wind speed minimum'',
              ''Chapter 16 Structural: hurricane strap requirements'']),
          (''IRC'', adoption 2018 ''2020-06-01''
             [''Section R301 Wind Design: 130 mph Vult minimum'']),
          (''NEC'', adoption 2017 ''2019-01-01'' []),
          (''IFC'', adoption 2018 ''2020-06-01'' [])],
       local_note = None, fireDistricts = None \<rparr>"

definition jefferson_county :: local_rec where
  "jefferson_county =
     \<lparr> local_type = Some ''county'',
       local_adopted =
         [(''IBC'', adoption 2018 ''2021-03-01'' []),
          (''IRC'', adoption 2018 ''2021-03-01'' []),
          (''NEC'', adoption 2020 ''2021-07-01'' [])],
       local_note = None, fireDistricts = None \<rparr>"

definition mobile_county :: local_rec where
  "mobile_county =
     \<lparr> local_type = Some ''county'',
       local_adopted =
         [(''IBC'', adoption 2018 ''2020-09-01''
             [''Wind speed map overrides per ASCE 7-16 Figure 26.5-1B'']),
          (''NEC'', adoption 2017 ''2019-01-01'' [])],
       local_note = None, fireDistricts = None \<rparr>"

definition alabama :: state_rec where
  "alabama =
     \<lparr> name = ''Alabama'', abbr = ''AL'', region = ''Southeast'',
       stateNote = ''Alabama adopts statewide codes but allows local amendments.'',
       adopted =
         [(''IBC'', adoption 2018 ''2021-01-01''
             [''Section 1612 amended for SFHA requirements'',
              ''Local seismic exceptions for northern Alabama'']),
          (''IRC'', adoption 2018 ''2021-01-01'' []),
          (''IFC'', adoption 2018 ''2021-01-01'' []),
          (''NEC'', adoption 2020 ''2021-07-01'' []),
          (''IECC'', adoption 2018 ''2021-01-01''
             [''Climate Zone 2-3 compliance path modified''])],
       cities = [(''Birmingham'', birmingham), (''Mobile'', mobile)],
       counties = [(''Jefferson County'', jefferson_county), (''Mobile County'', mobile_county)] \<rparr>"

definition excerpt :: "state_rec obj" where
  "excerpt = fill_states [(''MO'', ''Missouri''), (''MT'', ''Montana'')] [(''AL'', alabama)]"

text \<open>A store in which two states carry the same display name.\<close>

definition twin_store :: "state_rec obj" where
  "twin_store =
     [(''WA'', stub_entry (''WA'', ''Washington'')),
      (''DC'', stub_entry (''DC'', ''Washington''))]"


text \<open>A store in which a city name ends in digits.\<close>

definition numbered_store :: "state_rec obj" where
  "numbered_store =
     [(''AL'', alabama \<lparr> cities := [(''Area 85001'', mobile)], counties := [] \<rparr>)]"

text \<open>A comparison of strings by code units, one possible \<open>localeCompare\<close>.\<close>

fun compare_units :: "string \<Rightarrow> string \<Rightarrow> int" where
  "compare_units [] [] = 0"
| "compare_units [] (y # ys) = - 1"
| "compare_units (x # xs) [] = 1"
| "compare_units (x # xs) (y # ys) =
     (if (of_char x :: nat) < of_char y then - 1
      else if (of_char y :: nat) < of_char x then 1
      else compare_units xs ys)"

section \<open>The fallback pass\<close>



lemma prop_read_cases:
  "prop_read ob k = Own v \<longleftrightarrow> obj_get ob k = Some v"
  "prop_read ob k = Undefined \<longleftrightarrow> obj_get ob k = None \<and> k \<notin> set prototype_names"
  "prop_read ob k = Inherited m \<longleftrightarrow> obj_get ob k = None \<and> k \<in> set prototype_names \<and> m = k"
  by (auto simp: prop_read_def split: option.splits)












section \<open>The sources panel\<close>


lemma set_set_add: "set (set_add s x) = insert x (set s)"
  by (auto simp: set_add_def)


lemma set_add_code_sources_step:
  "set (add_code_sources ns k) =
     set ns \<union> {Key sk | sk. sk \<noteq> [] \<and> prop_read CODE_SOURCES k = Own sk} \<union>
     {Member m | m. prop_read CODE_SOURCES k = Inherited m} \<union>
     (if k = ''IECC'' then {Key ''becp''} else {})"
  by (cases "prop_read CODE_SOURCES k")
     (auto simp: add_code_sources_def Let_def set_set_add)

lemma set_add_code_sources:
  "set (foldl add_code_sources ns ks) =
     set ns \<union> {Key sk | sk. sk \<noteq> [] \<and> (\<exists>k \<in> set ks. prop_read CODE_SOURCES k = Own sk)} \<union>
     {Member m | m. \<exists>k \<in> set ks. prop_read CODE_SOURCES k = Inherited m} \<union>
     (if ''IECC'' \<in> set ks then {Key ''becp''} else {})"
proof (induction ks arbitrary: ns)
  case Nil
  then show ?case by simp
next
  case (Cons k ks)
  show ?case
    unfolding foldl_Cons Cons.IH set_add_code_sources_step by auto
qed

lemma set_neededSources:
  "set (neededSources isLocal ad) =
     {Key sk | sk. sk \<noteq> [] \<and> (\<exists>k \<in> set (obj_keys ad). prop_read CODE_SOURCES k = Own sk)} \<union>
     {Member m | m. \<exists>k \<in> set (obj_keys ad). prop_read CODE_SOURCES k = Inherited m} \<union>
     (if ''IECC'' \<in> set (obj_keys ad) then {Key ''becp''} else {}) \<union>
     (if set (obj_keys ad) \<inter> set icc_chart_codes \<noteq> {} then {Key ''icc_chart''} else {}) \<union>
     (if isLocal then {Key ''municode''} else {})"
proof -
  have ex: "list_ex (\<lambda>k. k \<in> set icc_chart_codes) (obj_keys ad) =
            (set (obj_keys ad) \<inter> set icc_chart_codes \<noteq> {})"
    by (auto simp: list_ex_iff)
  show ?thesis
    unfolding neededSources_def Let_def ex
    by (simp add: set_set_add set_add_code_sources)
qed

lemma code_source_known:
  assumes "prop_read CODE_SOURCES k = Own sk"
  shows "sk \<in> set (obj_keys DATA_SOURCES)"
proof -
  from assms have "obj_get CODE_SOURCES k = Some sk"
    by (simp add: prop_read_cases)
  then have "(k, sk) \<in> set CODE_SOURCES"
    unfolding obj_get_def by (rule map_of_SomeD)
  then have "sk \<in> snd ` set CODE_SOURCES"
    by (rule rev_image_eqI) simp
  moreover have "snd ` set CODE_SOURCES \<subseteq> set (obj_keys DATA_SOURCES)"
    by (simp add: CODE_SOURCES_def DATA_SOURCES_def obj_keys_def)
  ultimately show ?thesis ..
qed

lemma fixed_sources_known:
  "''becp'' \<in> set (obj_keys DATA_SOURCES)" "''icc_chart'' \<in> set (obj_keys DATA_SOURCES)"
  "''municode'' \<in> set (obj_keys DATA_SOURCES)"
  by (simp_all add: DATA_SOURCES_def obj_keys_def)

lemma needed_known:
  assumes "Key sk \<in> set (neededSources isLocal ad)"
  shows "sk \<in> set (obj_keys DATA_SOURCES)"
proof -
  from assms have "(\<exists>k. prop_read CODE_SOURCES k = Own sk) \<or> sk = ''becp'' \<or>
      sk = ''icc_chart'' \<or> sk = ''municode''"
    unfolding set_neededSources by (auto split: if_splits)
  then show ?thesis
    using code_source_known fixed_sources_known by blast
qed

lemma source_row_known:
  assumes "sk \<in> set (obj_keys DATA_SOURCES)"
  shows "\<exists>row. source_row_of st ad (Key sk) = Inr (Some row) \<and> row_source row = sk"
proof -
  from assms obtain src where "obj_get DATA_SOURCES sk = Some src"
    unfolding obj_keys_def obj_get_def by (metis map_of_eq_None_iff not_Some_eq set_map)
  then have "prop_read DATA_SOURCES sk = Own src"
    by (simp add: prop_read_cases)
  then show ?thesis
    by (simp add: source_row_of_def)
qed

lemma source_row_member: "source_row_of st ad (Member m) = Inr None"
  by (simp add: source_row_of_def)

lemma source_row_needed:
  assumes "ref \<in> set (neededSources isLocal ad)"
  shows "\<exists>x. source_row_of st ad ref = Inr x"
proof (cases ref)
  case (Key sk)
  with assms needed_known have "sk \<in> set (obj_keys DATA_SOURCES)"
    by blast
  from source_row_known [OF this] Key show ?thesis
    by blast
next
  case (Member m)
  then show ?thesis
    by (simp add: source_row_member)
qed

lemma collect_rows_ok:
  assumes "\<forall>e \<in> set xs. \<exists>x. e = Inr x"
  shows "\<exists>rs. collect_rows xs = Inr rs \<and> set rs = {row. Inr (Some row) \<in> set xs}"
  using assms
proof (induction xs)
  case Nil
  then show ?case by simp
next
  case (Cons e xs)
  then obtain x where e: "e = Inr x"
    by auto
  from Cons obtain rs where rs: "collect_rows xs = Inr rs"
    "set rs = {row. Inr (Some row) \<in> set xs}"
    by auto
  show ?case
  proof (cases x)
    case None
    with e rs show ?thesis by auto
  next
    case (Some row)
    with e rs show ?thesis by auto
  qed
qed

lemma buildSourcesPanel_returns:
  "\<exists>p. buildSourcesPanel st isLocal ad = Inr p \<and>
       needed p = neededSources isLocal ad \<and>
       set (rows p) =
         {row. \<exists>ref \<in> set (neededSources isLocal ad). source_row_of st ad ref = Inr (Some row)}"
proof -
  let ?xs = "map (source_row_of st ad) (neededSources isLocal ad)"
  have "\<forall>e \<in> set ?xs. \<exists>x. e = Inr x"
    using source_row_needed by auto
  from collect_rows_ok [OF this] obtain rs where rs: "collect_rows ?xs = Inr rs"
    "set rs = {row. Inr (Some row) \<in> set ?xs}"
    by blast
  have "{row. Inr (Some row) \<in> set ?xs} =
      {row. \<exists>ref \<in> set (neededSources isLocal ad). source_row_of st ad ref = Inr (Some row)}"
    by (auto simp: image_iff) metis
  with rs show ?thesis
    by (simp add: buildSourcesPanel_def Let_def)
qed

section \<open>Report statistics\<close>

lemma foldl_add_sum:
  "foldl (\<lambda>(s::nat) c. s + f c) a xs = a + sum_list (map f xs)"
  by (induction xs arbitrary: a) simp_all

lemma amendment_total_sum:
  "amendment_total m = (\<Sum>c\<leftarrow>obj_values m. length (amendment_list c))"
proof -
  have eq: "\<And>c. (case amendments c of None \<Rightarrow> 0 | Some a \<Rightarrow> length a) = length (amendment_list c)"
    by (simp add: amendment_list_def split: option.splits)
  show ?thesis
    by (simp add: amendment_total_def foldl_add_sum eq)
qed

lemma showReport_state_scope:
  "showReport (Some st) None None = Inr r \<Longrightarrow>
     codeCount r = length (adopted st) \<and> amendCount r = amendment_total (adopted st) \<and>
     \<not> scope_is_local r"
  by (auto simp: showReport_def Let_def obj_keys_def split: sum.splits)

lemma showReport_local_scope:
  "nm \<noteq> [] \<Longrightarrow> showReport (Some st) (Some loc) (Some nm) = Inr r \<Longrightarrow>
     codeCount r = length (local_adopted loc) \<and> amendCount r = amendment_total (local_adopted loc) \<and>
     scope_is_local r"
  by (auto simp: showReport_def Let_def obj_keys_def split: sum.splits)

lemma panel_case_returns:
  "\<exists>r. (case buildSourcesPanel st isLocal ad of Inl e \<Rightarrow> Inl e | Inr p \<Rightarrow> Inr (f p)) = Inr r"
proof -
  obtain p where "buildSourcesPanel st isLocal ad = Inr p"
    using buildSourcesPanel_returns by blast
  then show ?thesis
    by simp
qed

lemma showReport_returns: "\<exists>r. showReport (Some st) loc nm = Inr r"
  unfolding showReport_def Let_def option.case by (rule panel_case_returns)

text \<open>
  Claim C1. For a state-level scope the report's count of adopted codes is the number of
  entries of the state's adoption mapping and its amendment count is the sum of the
  lengths of the amendment lists of that mapping; for a local scope (a local record
  together with its non-empty name, which is how the script recognises a local scope)
  both are taken from the local record's mapping instead.
\<close>

theorem report_counts:
  "(\<exists>r. showReport (Some st) None None = Inr r \<and>
        codeCount r = length (adopted st) \<and>
        amendCount r = (\<Sum>c\<leftarrow>obj_values (adopted st). length (amendment_list c))) \<and>
   (nm \<noteq> [] \<longrightarrow>
      (\<exists>r. showReport (Some st) (Some loc) (Some nm) = Inr r \<and>
        codeCount r = length (local_adopted loc) \<and>
        amendCount r = (\<Sum>c\<leftarrow>obj_values (local_adopted loc). length (amendment_list c))))"
proof (intro conjI impI)
  obtain r where r: "showReport (Some st) None None = Inr r"
    using showReport_returns by blast
  from showReport_state_scope [OF r] r
  show "\<exists>r. showReport (Some st) None None = Inr r \<and>
        codeCount r = length (adopted st) \<and>
        amendCount r = (\<Sum>c\<leftarrow>obj_values (adopted st). length (amendment_list c))"
    by (auto simp: amendment_total_sum)
next
  assume nm: "nm \<noteq> []"
  obtain r where r: "showReport (Some st) (Some loc) (Some nm) = Inr r"
    using showReport_returns by blast
  from showReport_local_scope [OF nm r] r
  show "\<exists>r. showReport (Some st) (Some loc) (Some nm) = Inr r \<and>
        codeCount r = length (local_adopted loc) \<and>
        amendCount r = (\<Sum>c\<leftarrow>obj_values (local_adopted loc). length (amendment_list c))"
    by (auto simp: amendment_total_sum)
qed

lemma alabama_amendments: "amendment_total (adopted alabama) = 3"
  by (simp add: amendment_total_def alabama_def adoption_def obj_values_def)

lemma birmingham_amendments: "amendment_total (local_adopted birmingham) = 4"
  by (simp add: amendment_total_def birmingham_def adoption_def obj_values_def)

theorem report_counts_witness:
  "(\<exists>r. showReport (Some alabama) None None = Inr r \<and> codeCount r = 5 \<and> amendCount r = 3) \<and>
   (\<exists>r. showReport (Some alabama) (Some birmingham) (Some ''Birmingham'') = Inr r \<and>
        codeCount r = 6 \<and> amendCount r = 4)"
proof -
  have a: "length (adopted alabama) = 5" "length (local_adopted birmingham) = 6"
    by (simp_all add: alabama_def birmingham_def)
  have b: "(\<Sum>c\<leftarrow>obj_values (adopted alabama). length (amendment_list c)) = 3"
       "(\<Sum>c\<leftarrow>obj_values (local_adopted birmingham). length (amendment_list c)) = 4"
    using alabama_amendments birmingham_amendments by (simp_all add: amendment_total_sum)
  have c: "''Birmingham'' \<noteq> []" by simp
  show ?thesis
    using report_counts [of alabama "''Birmingham''" birmingham] a b c by simp
qed

text \<open>
  Claim C4. In every report the "has major amendments" flag is true exactly when the
  amendment count exceeds 3; with a count of exactly 3 it is false.
\<close>

theorem major_amendments_threshold:
  "showReport state_arg local_arg localName = Inr r \<Longrightarrow>
     hasMajorAmendments r = (3 < amendCount r) \<and>
     (amendCount r = 3 \<longrightarrow> \<not> hasMajorAmendments r)"
  by (auto simp: showReport_def Let_def split: option.splits sum.splits)

theorem major_amendments_threshold_witness:
  "\<exists>r r'. showReport (Some alabama) None None = Inr r \<and> amendCount r = 3 \<and>
          \<not> hasMajorAmendments r \<and>
          showReport (Some alabama) (Some birmingham) (Some ''Birmingham'') = Inr r' \<and>
          amendCount r' = 4 \<and> hasMajorAmendments r'"
proof -
  obtain r where r: "showReport (Some alabama) None None = Inr r"
    using showReport_returns by blast
  obtain r' where r': "showReport (Some alabama) (Some birmingham) (Some ''Birmingham'') = Inr r'"
    using showReport_returns by blast
  have "amendCount r = 3"
    using showReport_state_scope [OF r] alabama_amendments by simp
  moreover have "amendCount r' = 4"
    using showReport_local_scope [OF _ r'] birmingham_amendments by simp
  ultimately show ?thesis
    using r r' major_amendments_threshold [OF r] major_amendments_threshold [OF r'] by auto
qed

text \<open>
  Claim C3. Whatever the store and the query, the search returns at most 8 suggestions.
\<close>

theorem suggestions_capped: "length (buildSuggestions J query) \<le> 8"
  by (simp add: buildSuggestions_def)

theorem suggestions_capped_witness:
  "length (buildSuggestions excerpt ''mo, al, county'') \<le> 8"
  using suggestions_capped [of excerpt "''mo, al, county''"] by simp

section \<open>Unknown jurisdictions\<close>

lemma showReport_never_fails: "showReport (Some st) loc nm \<noteq> Inl e"
  using showReport_returns [of st loc nm] by auto

lemma showReport_missing_local:
  "showReport (Some st) None (Some n) = showReport (Some st) None None"
  unfolding showReport_def by (simp only: option.case simp_thms Let_def if_False)

lemma showReport_not_isl: "\<not> isl (showReport (Some st) loc nm)"
  using showReport_returns [of st loc nm] by auto

lemma showReport_undefined: "showReport None loc nm = Inl TypeError"
  unfolding showReport_def by (simp only: option.case)

lemma select_local_absent:
  assumes "obj_get locals nm = None"
  shows "select_local sr locals nm =
           (if nm \<in> set prototype_names then Inl TypeError else showReport (Some sr) None None)"
proof (cases "nm \<in> set prototype_names")
  case True
  with assms have "prop_read locals nm = Inherited nm"
    by (simp add: prop_read_cases)
  with True show ?thesis
    by (simp add: select_local_def)
next
  case False
  with assms have "prop_read locals nm = Undefined"
    by (simp add: prop_read_cases)
  with False show ?thesis
    by (simp add: select_local_def showReport_missing_local)
qed

lemma excerpt_alabama: "prop_read excerpt ''AL'' = Own alabama" "obj_get excerpt ''AL'' = Some alabama"
  by (simp_all add: excerpt_def fill_states_def fallback_step_def prop_read_def obj_get_def
        prototype_names_def)

text \<open>
  Claim C2, as stated, fails: the excerpt knows Alabama and Alabama has no city called
  Nowhere, yet selecting that city does not signal anything. The lookup
  \<open>state.cities[s.city]\<close> is undefined, \<open>isLocal\<close> is false, and the state-level report of
  Alabama is produced.
\<close>

theorem unknown_city_is_not_signalled:
  "obj_get excerpt ''AL'' = Some alabama \<and>
   obj_get (cities alabama) ''Nowhere'' = None \<and>
   selectSuggestion excerpt (city_result alabama ''Nowhere'') = showReport (Some alabama) None None \<and>
   \<not> isl (showReport (Some alabama) None None)"
proof -
  have b: "obj_get (cities alabama) ''Nowhere'' = None"
    by (simp add: alabama_def obj_get_def)
  have n: "''Nowhere'' \<notin> set prototype_names"
    by (simp add: prototype_names_def)
  have c: "state (city_result alabama ''Nowhere'') = ''AL''" "city (city_result alabama ''Nowhere'') = Some ''Nowhere''"
    by (simp_all add: city_result_def alabama_def)
  have "selectSuggestion excerpt (city_result alabama ''Nowhere'') = showReport (Some alabama) None None"
    using n by (simp add: selectSuggestion_def excerpt_alabama c Let_def select_local_absent [OF b])
  moreover have "\<not> isl (showReport (Some alabama) None None)"
    by (rule showReport_not_isl)
  ultimately show ?thesis using excerpt_alabama b by simp
qed

text \<open>
  Claim C2, amended. A request naming a state code that the store does not hold produces
  no report: the script fails with a TypeError, there being no NotFound value, whereas a
  state that is in the store always gets a report, also when its mapping is empty. A
  request naming a city (or county) that a known state does not hold produces that
  state's state-level report, the same as a request without a local name, unless the name
  is one of the property names every object inherits (\<open>constructor\<close>, \<open>toString\<close> and
  the like), for which the script fails with a TypeError as well.
\<close>

theorem unknown_jurisdiction_outcomes:
  "(obj_get J (state s) = None \<longrightarrow> selectSuggestion J s = Inl TypeError) \<and>
   (\<forall>st l nm. showReport (Some st) l nm \<noteq> Inl TypeError) \<and>
   (\<forall>st c. obj_get J (state s) = Some st \<and> city s = Some c \<and> c \<noteq> [] \<and>
            obj_get (cities st) c = None \<longrightarrow>
        selectSuggestion J s =
          (if c \<in> set prototype_names then Inl TypeError else showReport (Some st) None None)) \<and>
   (\<forall>st c. obj_get J (state s) = Some st \<and> (city s = None \<or> city s = Some []) \<and>
            county s = Some c \<and> c \<noteq> [] \<and> obj_get (counties st) c = None \<longrightarrow>
        selectSuggestion J s =
          (if c \<in> set prototype_names then Inl TypeError else showReport (Some st) None None))"
proof (intro conjI allI impI)
  assume a: "obj_get J (state s) = None"
  show "selectSuggestion J s = Inl TypeError"
  proof (cases "state s \<in> set prototype_names")
    case True
    with a have "prop_read J (state s) = Inherited (state s)"
      by (simp add: prop_read_cases)
    then show ?thesis
      by (simp add: selectSuggestion_def Let_def)
  next
    case False
    with a have "prop_read J (state s) = Undefined"
      by (simp add: prop_read_cases)
    then show ?thesis
      by (simp add: selectSuggestion_def Let_def showReport_undefined)
  qed
next
  fix st l nm
  show "showReport (Some st) l nm \<noteq> Inl TypeError"
    by (rule showReport_never_fails)
next
  fix st c
  assume a: "obj_get J (state s) = Some st \<and> city s = Some c \<and> c \<noteq> [] \<and> obj_get (cities st) c = None"
  then have "prop_read J (state s) = Own st"
    by (simp add: prop_read_cases)
  with a show "selectSuggestion J s =
      (if c \<in> set prototype_names then Inl TypeError else showReport (Some st) None None)"
    by (simp add: selectSuggestion_def Let_def select_local_absent)
next
  fix st c
  assume a: "obj_get J (state s) = Some st \<and> (city s = None \<or> city s = Some []) \<and>
            county s = Some c \<and> c \<noteq> [] \<and> obj_get (counties st) c = None"
  then have "prop_read J (state s) = Own st"
    by (simp add: prop_read_cases)
  with a show "selectSuggestion J s =
      (if c \<in> set prototype_names then Inl TypeError else showReport (Some st) None None)"
    by (auto simp: selectSuggestion_def Let_def select_local_absent)
qed

theorem unknown_jurisdiction_outcomes_witness:
  "selectSuggestion excerpt (state_result (stub_entry (''ZZ'', ''Zed''))) = Inl TypeError \<and>
   showReport (Some (stub_entry (''ZZ'', ''Zed'') \<lparr> adopted := [] \<rparr>)) None None \<noteq> Inl TypeError \<and>
   selectSuggestion excerpt (city_result alabama ''Atlantis'') = showReport (Some alabama) None None \<and>
   selectSuggestion excerpt (city_result alabama ''constructor'') = Inl TypeError \<and>
   selectSuggestion excerpt (county_result alabama ''Atlantis County'') = showReport (Some alabama) None None"
proof -
  have a: "obj_get excerpt ''AL'' = Some alabama" "obj_get excerpt ''ZZ'' = None"
    by (simp_all add: excerpt_def fill_states_def fallback_step_def prop_read_def obj_get_def
          prototype_names_def)
  have b: "obj_get (cities alabama) ''Atlantis'' = None"
          "obj_get (cities alabama) ''constructor'' = None"
          "obj_get (counties alabama) ''Atlantis County'' = None"
    by (simp_all add: alabama_def obj_get_def)
  have p: "''Atlantis'' \<notin> set prototype_names" "''constructor'' \<in> set prototype_names"
    "''Atlantis County'' \<notin> set prototype_names"
    by (simp_all add: prototype_names_def)
  have al: "abbr alabama = ''AL''"
    by (simp add: alabama_def)
  have z: "obj_get excerpt (state (state_result (stub_entry (''ZZ'', ''Zed'')))) = None"
    using a by (simp add: state_result_def stub_entry_def)
  have c1: "obj_get excerpt (state (city_result alabama ''Atlantis'')) = Some alabama \<and>
            city (city_result alabama ''Atlantis'') = Some ''Atlantis'' \<and> ''Atlantis'' \<noteq> [] \<and>
            obj_get (cities alabama) ''Atlantis'' = None"
    using a b by (simp add: city_result_def al)
  have c3: "obj_get excerpt (state (city_result alabama ''constructor'')) = Some alabama \<and>
            city (city_result alabama ''constructor'') = Some ''constructor'' \<and> ''constructor'' \<noteq> [] \<and>
            obj_get (cities alabama) ''constructor'' = None"
    using a b by (simp add: city_result_def al)
  have c2: "obj_get excerpt (state (county_result alabama ''Atlantis County'')) = Some alabama \<and>
            (city (county_result alabama ''Atlantis County'') = None \<or>
             city (county_result alabama ''Atlantis County'') = Some []) \<and>
            county (county_result alabama ''Atlantis County'') = Some ''Atlantis County'' \<and>
            ''Atlantis County'' \<noteq> [] \<and>
            obj_get (counties alabama) ''Atlantis County'' = None"
    using a b by (simp add: county_result_def al)
  from unknown_jurisdiction_outcomes [of excerpt "state_result (stub_entry (''ZZ'', ''Zed''))"] z
  have 1: "selectSuggestion excerpt (state_result (stub_entry (''ZZ'', ''Zed''))) = Inl TypeError"
    and 2: "showReport (Some (stub_entry (''ZZ'', ''Zed'') \<lparr> adopted := [] \<rparr>)) None None \<noteq> Inl TypeError"
    by blast+
  from unknown_jurisdiction_outcomes [of excerpt "city_result alabama ''Atlantis''"] c1
  have "selectSuggestion excerpt (city_result alabama ''Atlantis'') =
      (if ''Atlantis'' \<in> set prototype_names then Inl TypeError else showReport (Some alabama) None None)"
    by blast
  with p(1) have 3: "selectSuggestion excerpt (city_result alabama ''Atlantis'') = showReport (Some alabama) None None"
    by (simp only: if_False)
  from unknown_jurisdiction_outcomes [of excerpt "city_result alabama ''constructor''"] c3
  have "selectSuggestion excerpt (city_result alabama ''constructor'') =
      (if ''constructor'' \<in> set prototype_names then Inl TypeError else showReport (Some alabama) None None)"
    by blast
  with p(2) have 5: "selectSuggestion excerpt (city_result alabama ''constructor'') = Inl TypeError"
    by (simp only: if_True)
  from unknown_jurisdiction_outcomes [of excerpt "county_result alabama ''Atlantis County''"] c2
  have "selectSuggestion excerpt (county_result alabama ''Atlantis County'') =
      (if ''Atlantis County'' \<in> set prototype_names then Inl TypeError else showReport (Some alabama) None None)"
    by blast
  with p(3) have 4: "selectSuggestion excerpt (county_result alabama ''Atlantis County'') = showReport (Some alabama) None None"
    by (simp only: if_False)
  from 1 2 3 4 5 show ?thesis by (intro conjI)
qed

section \<open>Source attribution\<close>













section \<open>The sorted state list\<close>

lemma mset_insert_by: "mset (insert_by cmp x ys) = add_mset x (mset ys)"
  by (induction ys) simp_all

lemma set_insert_by: "set (insert_by cmp x ys) = insert x (set ys)"
  by (induction ys) auto

lemma sorted_insert_by:
  assumes total: "\<And>a b. cmp a b \<le> 0 \<or> cmp b a \<le> 0"
    and trans: "\<And>a b c. cmp a b \<le> 0 \<Longrightarrow> cmp b c \<le> 0 \<Longrightarrow> cmp a c \<le> 0"
    and sorted: "sorted_wrt (\<lambda>a b. cmp a b \<le> 0) ys"
  shows "sorted_wrt (\<lambda>a b. cmp a b \<le> 0) (insert_by cmp x ys)"
  using sorted
proof (induction ys)
  case Nil
  then show ?case by simp
next
  case (Cons y ys)
  show ?case
  proof (cases "cmp x y \<le> 0")
    case True
    with Cons.prems show ?thesis
      by (auto intro: trans)
  next
    case False
    with total [of x y] have "cmp y x \<le> 0"
      by blast
    with False Cons show ?thesis
      by (auto simp: set_insert_by)
  qed
qed

lemma filter_insert_by:
  assumes "\<And>y. P x \<Longrightarrow> P y \<Longrightarrow> cmp x y \<le> 0"
  shows "filter P (insert_by cmp x ys) = (if P x then x # filter P ys else filter P ys)"
proof (induction ys)
  case Nil
  then show ?case by simp
next
  case (Cons y ys)
  show ?case
  proof (cases "cmp x y \<le> 0")
    case True
    then show ?thesis by simp
  next
    case False
    have "\<not> P y" if "P x"
      using that False assms by blast
    with False Cons.IH show ?thesis
      by auto
  qed
qed

lemma js_sort_Cons: "js_sort cmp (x # xs) = insert_by cmp x (js_sort cmp xs)"
  by (simp add: js_sort_def)

lemma js_sort_Nil: "js_sort cmp [] = []"
  by (simp add: js_sort_def)

lemma mset_js_sort: "mset (js_sort cmp xs) = mset xs"
  by (induction xs) (simp_all add: js_sort_Nil js_sort_Cons mset_insert_by)

lemma sorted_js_sort:
  assumes "\<And>a b. cmp a b \<le> 0 \<or> cmp b a \<le> 0"
    and "\<And>a b c. cmp a b \<le> 0 \<Longrightarrow> cmp b c \<le> 0 \<Longrightarrow> cmp a c \<le> 0"
  shows "sorted_wrt (\<lambda>a b. cmp a b \<le> 0) (js_sort cmp xs)"
proof (induction xs)
  case Nil
  then show ?case by (simp add: js_sort_Nil)
next
  case (Cons x xs)
  show ?case
    unfolding js_sort_Cons
    by (rule sorted_insert_by [OF assms(1) assms(2) Cons.IH])
qed

lemma stable_js_sort:
  assumes "\<And>x y. P x \<Longrightarrow> P y \<Longrightarrow> cmp x y \<le> 0"
  shows "filter P (js_sort cmp xs) = filter P xs"
proof (induction xs)
  case Nil
  then show ?case by (simp add: js_sort_Nil)
next
  case (Cons x xs)
  have "filter P (insert_by cmp x (js_sort cmp xs)) =
         (if P x then x # filter P (js_sort cmp xs) else filter P (js_sort cmp xs))"
    by (rule filter_insert_by) (rule assms)
  then show ?case
    using Cons.IH by (simp add: js_sort_Cons)
qed

lemma compare_units_refl: "compare_units a a = 0"
  by (induction a) simp_all

lemma compare_units_total: "compare_units a b \<le> 0 \<or> compare_units b a \<le> 0"
  by (induction a b rule: compare_units.induct) auto

lemma compare_units_trans:
  "compare_units a b \<le> 0 \<Longrightarrow> compare_units b c \<le> 0 \<Longrightarrow> compare_units a c \<le> 0"
proof (induction a b arbitrary: c rule: compare_units.induct)
  case 1
  then show ?case by simp
next
  case (2 y ys)
  then show ?case by (cases c) simp_all
next
  case (3 x xs)
  then show ?case by simp
next
  case (4 x xs y ys)
  show ?case
  proof (cases c)
    case Nil
    with "4.prems" show ?thesis by simp
  next
    case (Cons z zs)
    have xy: "(of_char x :: nat) < of_char y \<or>
              ((of_char x :: nat) = of_char y \<and> compare_units xs ys \<le> 0)"
      using "4.prems"(1) by (simp split: if_splits)
    have yz: "(of_char y :: nat) < of_char z \<or>
              ((of_char y :: nat) = of_char z \<and> compare_units ys zs \<le> 0)"
      using "4.prems"(2) Cons by (simp split: if_splits)
    show ?thesis
    proof (cases "(of_char x :: nat) < of_char z")
      case True
      with Cons show ?thesis by simp
    next
      case False
      with xy yz have e: "(of_char x :: nat) = of_char y" "(of_char y :: nat) = of_char z"
        and le: "compare_units xs ys \<le> 0" "compare_units ys zs \<le> 0"
        by linarith+
      from e have "compare_units xs zs \<le> 0"
        using "4.IH" [of zs] le by simp
      with e Cons show ?thesis by simp
    qed
  qed
qed

text \<open>
  Claim C8, as stated, fails on ties: the comparison function of \<open>statesSorted\<close> looks at
  the display names only. Two states called Washington, stored under WA and then DC, come
  out as WA, DC, although DC is the smaller code.
\<close>

theorem twin_names_keep_insertion_order:
  "map (\<lambda>s. (name s, abbr s)) (statesSorted compare_units twin_store) =
     [(''Washington'', ''WA''), (''Washington'', ''DC'')] \<and>
   compare_units ''DC'' ''WA'' < 0"
proof -
  have n: "name (stub_entry p) = snd p" "abbr (stub_entry p) = fst p" for p
    by (simp_all add: stub_entry_def)
  have sorted: "statesSorted compare_units twin_store =
      [stub_entry (''WA'', ''Washington''), stub_entry (''DC'', ''Washington'')]"
    by (simp add: statesSorted_def js_sort_def twin_store_def obj_values_def n compare_units_refl)
  have less: "compare_units ''DC'' ''WA'' < 0"
    by simp
  show ?thesis
    unfolding sorted using less by (simp add: n)
qed

text \<open>
  Claim C8, amended. For a consistent locale comparison (total and transitive) the list
  of states is a rearrangement of the store's states that is ascending by display name,
  and states whose names compare equal keep the order in which the store holds them;
  there is no tie-break by state code. The list is a function of the store and the
  comparison, so computing it again on the same store gives the same list.
\<close>

theorem statesSorted_by_name:
  assumes total: "\<forall>a b. lc a b \<le> 0 \<or> lc b a \<le> 0"
    and trans: "\<forall>a b c. lc a b \<le> 0 \<and> lc b c \<le> 0 \<longrightarrow> lc a c \<le> 0"
  shows "sorted_wrt (\<lambda>s t. lc (name s) (name t) \<le> 0) (statesSorted lc J) \<and>
         mset (statesSorted lc J) = mset (obj_values J) \<and>
         (\<forall>n. filter (\<lambda>s. lc n (name s) \<le> 0 \<and> lc (name s) n \<le> 0) (statesSorted lc J) =
              filter (\<lambda>s. lc n (name s) \<le> 0 \<and> lc (name s) n \<le> 0) (obj_values J))"
proof -
  let ?cmp = "\<lambda>(a :: state_rec) (b :: state_rec). lc (name a) (name b)"
  have t: "?cmp a b \<le> 0 \<or> ?cmp b a \<le> 0" for a b
    using total by blast
  have tr: "?cmp a b \<le> 0 \<Longrightarrow> ?cmp b c \<le> 0 \<Longrightarrow> ?cmp a c \<le> 0" for a b c
    using trans by blast
  have s1: "sorted_wrt (\<lambda>s t. ?cmp s t \<le> 0) (js_sort ?cmp (obj_values J))"
    by (rule sorted_js_sort) (rule t, rule tr)
  have s2: "mset (js_sort ?cmp (obj_values J)) = mset (obj_values J)"
    by (rule mset_js_sort)
  have s3: "filter (\<lambda>s. lc n (name s) \<le> 0 \<and> lc (name s) n \<le> 0) (js_sort ?cmp (obj_values J)) =
            filter (\<lambda>s. lc n (name s) \<le> 0 \<and> lc (name s) n \<le> 0) (obj_values J)" for n
  proof (rule stable_js_sort)
    fix x y :: state_rec
    assume "lc n (name x) \<le> 0 \<and> lc (name x) n \<le> 0" "lc n (name y) \<le> 0 \<and> lc (name y) n \<le> 0"
    then show "lc (name x) (name y) \<le> 0"
      using trans by blast
  qed
  show ?thesis
    unfolding statesSorted_def by (intro conjI allI s1 s2 s3)
qed

theorem statesSorted_by_name_witness:
  "sorted_wrt (\<lambda>s t. compare_units (name s) (name t) \<le> 0) (statesSorted compare_units twin_store) \<and>
   mset (statesSorted compare_units twin_store) = mset (obj_values twin_store)"
proof -
  have total: "\<forall>a b. compare_units a b \<le> 0 \<or> compare_units b a \<le> 0"
    using compare_units_total by blast
  have trans: "\<forall>a b c. compare_units a b \<le> 0 \<and> compare_units b c \<le> 0 \<longrightarrow> compare_units a c \<le> 0"
    using compare_units_trans by blast
  note h = statesSorted_by_name [OF total trans, of twin_store]
  show ?thesis
    by (intro conjI conjunct1 [OF h] conjunct1 [OF conjunct2 [OF h]])
qed

section \<open>Trimming and splitting\<close>

lemma filter_dropWhile_not:
  "filter (\<lambda>c. \<not> Q c) (dropWhile Q s) = filter (\<lambda>c. \<not> Q c) s"
  by (induction s) simp_all

lemma nonspace_trim:
  "filter (\<lambda>c. \<not> is_space c) (trim s) = filter (\<lambda>c. \<not> is_space c) s"
proof -
  have "filter (\<lambda>c. \<not> is_space c) (trim s) =
        rev (filter (\<lambda>c. \<not> is_space c) (dropWhile is_space (rev (dropWhile is_space s))))"
    by (simp add: trim_def rev_filter)
  also have "\<dots> = rev (filter (\<lambda>c. \<not> is_space c) (rev (dropWhile is_space s)))"
    by (simp only: filter_dropWhile_not)
  also have "\<dots> = filter (\<lambda>c. \<not> is_space c) (dropWhile is_space s)"
    by (simp add: rev_filter)
  finally show ?thesis
    by (simp only: filter_dropWhile_not)
qed

lemma length_trim_le: "length (trim s) \<le> length s"
proof -
  have "length (trim s) \<le> length (dropWhile is_space s)"
    unfolding trim_def length_rev by (metis length_dropWhile_le length_rev)
  also have "\<dots> \<le> length s"
    by (rule length_dropWhile_le)
  finally show ?thesis .
qed

lemma last_dropWhile: "dropWhile P xs \<noteq> [] \<Longrightarrow> last (dropWhile P xs) = last xs"
  by (induction xs) (auto split: if_splits)

lemma trim_ends:
  assumes "trim s \<noteq> []"
  shows "\<not> is_space (hd (trim s)) \<and> \<not> is_space (last (trim s))"
proof -
  let ?d = "dropWhile is_space s"
  let ?e = "dropWhile is_space (rev ?d)"
  from assms have e: "?e \<noteq> []"
    by (simp add: trim_def)
  have d: "?d \<noteq> []"
  proof
    assume "?d = []"
    then have "?e = []"
      by (simp only: rev.simps dropWhile.simps)
    with e show False ..
  qed
  have "last (trim s) = hd ?e"
    using e by (simp add: trim_def last_rev)
  moreover have "\<not> is_space (hd ?e)"
    using e by (rule hd_dropWhile)
  moreover have "hd (trim s) = last ?e"
    using e by (simp add: trim_def hd_rev)
  moreover have "last ?e = hd ?d"
    using e d by (simp add: last_dropWhile last_rev)
  moreover have "\<not> is_space (hd ?d)"
    using d by (rule hd_dropWhile)
  ultimately show ?thesis
    by simp
qed

lemma two_ends_count:
  assumes "2 \<le> length t" "\<not> P (hd t)" "\<not> P (last t)"
  shows "2 \<le> length (filter (\<lambda>c. \<not> P c) t)"
proof -
  from assms(1) obtain x u where t: "t = x # u"
    by (cases t) auto
  from assms(1) t have u: "u \<noteq> []"
    by auto
  from u obtain m y where u': "u = m @ [y]"
    by (cases u rule: rev_cases) auto
  from assms(2,3) t u' have "\<not> P x" "\<not> P y"
    by simp_all
  then show ?thesis
    by (simp add: t u')
qed

lemma trim_short:
  assumes "length (filter (\<lambda>c. \<not> is_space c) s) < 2"
  shows "length (trim s) < 2"
proof (rule ccontr)
  assume "\<not> length (trim s) < 2"
  then have l: "2 \<le> length (trim s)"
    by simp
  then have "trim s \<noteq> []"
    by auto
  from trim_ends [OF this] l have "2 \<le> length (filter (\<lambda>c. \<not> is_space c) (trim s))"
    by (intro two_ends_count) simp_all
  with assms show False
    by (simp add: nonspace_trim)
qed

lemma split_comma_nonempty: "split_comma s \<noteq> []"
  by (induction s) (auto split: list.splits)

lemma split_comma_count:
  "p \<in> set (split_comma s) \<Longrightarrow> length (filter P p) \<le> length (filter P s)"
proof (induction s arbitrary: p)
  case Nil
  then show ?case by simp
next
  case (Cons c cs)
  show ?case
  proof (cases "c = CHR '',''")
    case True
    with Cons.prems have "p = [] \<or> p \<in> set (split_comma cs)"
      by simp
    then show ?thesis
      using Cons.IH [of p] by (auto intro: le_SucI)
  next
    case False
    obtain q qs where q: "split_comma cs = q # qs"
      using split_comma_nonempty [of cs] by (cases "split_comma cs") auto
    with False Cons.prems have "p = c # q \<or> p \<in> set qs"
      by simp
    then show ?thesis
    proof
      assume p: "p = c # q"
      from q have "q \<in> set (split_comma cs)" by simp
      from Cons.IH [OF this] show ?thesis
        by (simp add: p)
    next
      assume "p \<in> set qs"
      with q have "p \<in> set (split_comma cs)" by simp
      from Cons.IH [OF this] show ?thesis
        by (auto intro: le_SucI)
    qed
  qed
qed

lemma strip_zip_prefix: "\<exists>w. s = strip_zip s @ w"
proof (induction s)
  case Nil
  then show ?case by simp
next
  case (Cons c cs)
  then obtain w where w: "cs = strip_zip cs @ w"
    by blast
  show ?case
  proof (cases "zip_match_here (c # cs)")
    case True
    then show ?thesis by simp
  next
    case False
    with w have "c # cs = strip_zip (c # cs) @ w" by simp
    then show ?thesis by blast
  qed
qed

lemma length_strip_zip_le: "length (strip_zip s) \<le> length s"
proof -
  obtain w where "s = strip_zip s @ w"
    using strip_zip_prefix by blast
  then have "length s = length (strip_zip s) + length w"
    by (metis length_append)
  then show ?thesis by simp
qed

lemma set_foldl_set_add: "set (foldl set_add acc xs) = set acc \<union> set xs"
  by (induction xs arbitrary: acc) (auto simp: set_set_add)

lemma set_new_Set: "set (new_Set xs) = set xs"
  by (simp add: new_Set_def set_foldl_set_add)

lemma rawParts_short:
  assumes "length (trim query) < 2" "p \<in> set (rawParts query)"
  shows "length p < 2"
proof -
  have "length (filter (\<lambda>c. \<not> is_space c) query) = length (filter (\<lambda>c. \<not> is_space c) (trim query))"
    by (simp only: nonspace_trim)
  also have "\<dots> \<le> length (trim query)"
    by (rule length_filter_le)
  finally have q: "length (filter (\<lambda>c. \<not> is_space c) query) < 2"
    using assms(1) by simp
  from assms(2) obtain piece where piece: "piece \<in> set (split_comma query)"
    and p: "p = trim (strip_zip (trim piece))"
    by (auto simp: rawParts_def)
  from split_comma_count [OF piece, of "\<lambda>c. \<not> is_space c"] q
  have "length (filter (\<lambda>c. \<not> is_space c) piece) < 2"
    by simp
  then have "length (trim piece) < 2"
    by (rule trim_short)
  moreover have "length p \<le> length (strip_zip (trim piece))"
    unfolding p by (rule length_trim_le)
  moreover have "length (strip_zip (trim piece)) \<le> length (trim piece)"
    by (rule length_strip_zip_le)
  ultimately show ?thesis
    by simp
qed

lemma search_terms_short: "length (trim query) < 2 \<Longrightarrow> search_terms query = []"
  unfolding search_terms_def filter_empty_conv set_new_Set
  using rawParts_short [of query] by (auto simp: not_le)

text \<open>
  Claim C6. A query that is shorter than 2 characters once its surrounding white space
  is trimmed gives the empty list of suggestions, and no error: either the query itself
  is shorter than 2 characters, or none of its pieces survives the length filter.
\<close>

theorem short_query_gives_no_suggestions:
  "length (trim query) < 2 \<Longrightarrow> buildSuggestions J query = []"
  by (simp add: buildSuggestions_def search_terms_short)

theorem short_query_gives_no_suggestions_witness:
  "length (trim ''  a  '') < 2 \<and> \<not> length ''  a  '' < 2 \<and>
   buildSuggestions excerpt ''  a  '' = []"
proof -
  have h: "length (trim ''  a  '') < 2"
    by (simp add: trim_def is_space_def)
  from short_query_gives_no_suggestions [OF h, of excerpt] h show ?thesis
    by simp
qed

section \<open>Discovery order of the search\<close>

lemma city_hits_fold:
  "foldl (city_hit t st) acc cs =
     foldl (\<lambda>a (k, s). push_unseen k s a) acc
       (map (\<lambda>c. (city_key st c, city_result st c))
          (filter (\<lambda>c. str_includes (toLowerCase c) t) cs))"
  by (induction cs arbitrary: acc) (simp_all add: city_hit_def)

lemma county_hits_fold:
  "foldl (county_hit t st) acc cs =
     foldl (\<lambda>a (k, s). push_unseen k s a) acc
       (map (\<lambda>c. (county_key st c, county_result st c))
          (filter (\<lambda>c. str_includes (toLowerCase c) t) cs))"
  by (induction cs arbitrary: acc) (simp_all add: county_hit_def)

lemma state_hit_fold:
  "state_hit t st acc =
     foldl (\<lambda>a (k, s). push_unseen k s a) acc
       (if str_includes (toLowerCase (name st)) t \<or> toLowerCase (abbr st) = t
        then [(state_key st, state_result st)] else [])"
  by (simp add: state_hit_def)

lemma visit_state_fold:
  "visit_state t acc st = foldl (\<lambda>a (k, s). push_unseen k s a) acc (state_candidates t st)"
  unfolding visit_state_def state_candidates_def foldl_append
  by (simp only: city_hits_fold county_hits_fold state_hit_fold)

lemma visit_states_fold:
  "foldl (visit_state t) acc sts =
     foldl (\<lambda>a (k, s). push_unseen k s a) acc (concat (map (state_candidates t) sts))"
  by (induction sts arbitrary: acc) (simp_all add: visit_state_fold)

lemma visit_terms_fold:
  "foldl (visit_term J) acc terms =
     foldl (\<lambda>a (k, s). push_unseen k s a) acc (discovery_order J terms)"
  by (induction terms arbitrary: acc)
     (simp_all add: discovery_order_def visit_term_def visit_states_fold)

lemma push_fold_first_occurrences:
  "fst (foldl (\<lambda>a (k, s). push_unseen k s a) (res, seen) cands) =
     res @ first_occurrences seen cands"
proof (induction cands arbitrary: res seen)
  case Nil
  then show ?case by simp
next
  case (Cons kx rest)
  obtain k x where kx: "kx = (k, x)"
    by (cases kx)
  show ?case
  proof (cases "k \<in> set seen")
    case True
    then have "push_unseen k x (res, seen) = (res, seen)"
      by (simp add: push_unseen_def)
    with True show ?thesis
      by (simp add: kx Cons.IH)
  next
    case False
    then have "push_unseen k x (res, seen) = (res @ [x], seen @ [k])"
      by (simp add: push_unseen_def set_add_def)
    with False show ?thesis
      by (simp add: kx Cons.IH)
  qed
qed

lemma results_discovery_order:
  "fst (foldl (visit_term J) ([], []) terms) = first_occurrences [] (discovery_order J terms)"
  by (simp add: visit_terms_fold push_fold_first_occurrences)

lemma buildSuggestions_discovery:
  "buildSuggestions J query =
     take 8 (first_occurrences [] (discovery_order J (search_terms query)))"
proof (cases "length query < 2")
  case True
  have "length (trim query) \<le> length query"
    by (rule length_trim_le)
  with True have "search_terms query = []"
    by (intro search_terms_short) simp
  with True show ?thesis
    by (simp add: buildSuggestions_def discovery_order_def)
next
  case False
  then show ?thesis
    by (simp add: buildSuggestions_def results_discovery_order)
qed

lemma state_candidates_keys:
  "(k, s) \<in> set (state_candidates t st) \<Longrightarrow> k = identity_key (identity s)"
  by (auto simp: state_candidates_def identity_key_def identity_def state_key_def city_key_def
        county_key_def state_result_def city_result_def county_result_def split: if_splits)

lemma discovery_order_keys:
  "(k, s) \<in> set (discovery_order J terms) \<Longrightarrow> k = identity_key (identity s)"
  by (auto simp: discovery_order_def dest: state_candidates_keys)

lemma first_occurrences_distinct:
  assumes "\<And>k s. (k, s) \<in> set cands \<Longrightarrow> k = g (f s)"
  shows "distinct (map f (first_occurrences seen cands)) \<and>
         (\<forall>s \<in> set (first_occurrences seen cands). g (f s) \<notin> set seen)"
  using assms
proof (induction cands arbitrary: seen)
  case Nil
  then show ?case by simp
next
  case (Cons kx rest)
  obtain k x where kx: "kx = (k, x)"
    by (cases kx)
  have k: "k = g (f x)"
    using Cons.prems [of k x] by (simp add: kx)
  have rest: "\<And>k s. (k, s) \<in> set rest \<Longrightarrow> k = g (f s)"
    using Cons.prems by simp
  note IH = Cons.IH [OF rest]
  show ?case
  proof (cases "k \<in> set seen")
    case True
    with IH [of seen] show ?thesis
      by (simp add: kx)
  next
    case False
    from IH [of "seen @ [k]"]
    have d: "distinct (map f (first_occurrences (seen @ [k]) rest))"
      and n: "\<forall>s \<in> set (first_occurrences (seen @ [k]) rest). g (f s) \<notin> set (seen @ [k])"
      by blast+
    from n have "f x \<notin> f ` set (first_occurrences (seen @ [k]) rest)"
      using k by auto
    with d n False k show ?thesis
      by (simp add: kx)
  qed
qed

lemma distinct_take_map: "distinct (map f xs) \<Longrightarrow> distinct (map f (take n xs))"
  by (simp add: take_map [symmetric] distinct_take)

text \<open>
  Claim C5, amended. The suggestions are the first 8 of the first occurrences, by key, of
  the matches in discovery order: the terms one after the other, for each term the states
  in the order the store holds them, and for each state its own match, then its matching
  cities, then its matching counties. No two suggestions have the same identity (match
  kind, state code, local name). State matches are not all found before the city and
  county matches: a state's cities and counties come before the next state.
\<close>

theorem suggestions_in_discovery_order:
  "buildSuggestions J query =
     take 8 (first_occurrences [] (discovery_order J (search_terms query))) \<and>
   distinct (map identity (buildSuggestions J query))"
proof -
  have "distinct (map identity (first_occurrences [] (discovery_order J (search_terms query))))"
    using first_occurrences_distinct [of "discovery_order J (search_terms query)" identity_key identity "[]"]
      discovery_order_keys [of _ _ J "search_terms query"] by blast
  then show ?thesis
    by (simp add: buildSuggestions_discovery distinct_take_map)
qed


lemma lower_facts:
  "toLowerCase ''mo'' = ''mo''"
  "toLowerCase ''Alabama'' = ''alabama''"
  "toLowerCase ''AL'' = ''al''"
  "toLowerCase ''Birmingham'' = ''birmingham''"
  "toLowerCase ''Mobile'' = ''mobile''"
  "toLowerCase ''Jefferson County'' = ''jefferson county''"
  "toLowerCase ''Mobile County'' = ''mobile county''"
  "toLowerCase ''Missouri'' = ''missouri''"
  "toLowerCase ''MO'' = ''mo''"
  "toLowerCase ''Montana'' = ''montana''"
  "toLowerCase ''MT'' = ''mt''"
  by (simp_all add: toLowerCase_def lower_char_def char_of_eq_iff)

lemma excerpt_values:
  "obj_values excerpt = [alabama, stub_entry (''MO'', ''Missouri''), stub_entry (''MT'', ''Montana'')]"
  by (simp add: excerpt_def fill_states_def fallback_step_def prop_read_def obj_get_def
        prototype_names_def obj_values_def)

lemma stub_fields:
  "name (stub_entry p) = snd p" "abbr (stub_entry p) = fst p"
  "obj_keys (cities (stub_entry p)) = []" "obj_keys (counties (stub_entry p)) = []"
  by (simp_all add: stub_entry_def obj_keys_def)

lemma alabama_fields:
  "name alabama = ''Alabama''" "abbr alabama = ''AL''"
  "obj_keys (cities alabama) = [''Birmingham'', ''Mobile'']"
  "obj_keys (counties alabama) = [''Jefferson County'', ''Mobile County'']"
  by (simp_all add: alabama_def obj_keys_def)

lemma terms_mo: "search_terms ''mo'' = [''mo'']"
  by (simp add: search_terms_def rawParts_def new_Set_def set_add_def trim_def is_space_def
        zip_match_here_def)

lemma candidates_mo:
  "discovery_order excerpt [''mo''] =
     [(city_key alabama ''Mobile'', city_result alabama ''Mobile''),
      (county_key alabama ''Mobile County'', county_result alabama ''Mobile County''),
      (state_key (stub_entry (''MO'', ''Missouri'')), state_result (stub_entry (''MO'', ''Missouri''))),
      (state_key (stub_entry (''MT'', ''Montana'')), state_result (stub_entry (''MT'', ''Montana'')))]"
  by (simp add: discovery_order_def excerpt_values state_candidates_def lower_facts stub_fields
        alabama_fields)

text \<open>
  Claim C5, as stated, fails on the order: for the query "mo" the city Mobile and Mobile
  County of Alabama, the first state of the excerpt, are found before the states Missouri
  and Montana.
\<close>

theorem city_found_before_state:
  "map (\<lambda>s. (rtype s, label s)) (buildSuggestions excerpt ''mo'') =
     [(''CITY'', ''Mobile''), (''COUNTY'', ''Mobile County''),
      (''STATE'', ''Missouri''), (''STATE'', ''Montana'')]"
  by (simp add: buildSuggestions_discovery terms_mo candidates_mo city_key_def county_key_def
        state_key_def city_result_def county_result_def state_result_def stub_fields alabama_fields)


theorem suggestions_in_discovery_order_witness:
  "buildSuggestions excerpt ''mo'' =
     take 8 (first_occurrences [] (discovery_order excerpt (search_terms ''mo''))) \<and>
   distinct (map identity (buildSuggestions excerpt ''mo''))"
  by (rule suggestions_in_discovery_order)

section \<open>Tokens of a query\<close>

subsection \<open>De-duplication\<close>

lemma new_Set_snoc: "new_Set (xs @ [x]) = set_add (new_Set xs) x"
  by (simp add: new_Set_def)

lemma dedup_first_snoc:
  "dedup_first (xs @ [x]) = (if x \<in> set xs then dedup_first xs else dedup_first xs @ [x])"
  by (simp add: dedup_first_def)

lemma new_Set_dedup_first: "new_Set xs = dedup_first xs"
proof (induction xs rule: rev_induct)
  case Nil
  then show ?case by (simp add: new_Set_def dedup_first_def)
next
  case (snoc x xs)
  have "set (dedup_first xs) = set xs"
    by (simp add: dedup_first_def)
  then show ?case
    unfolding new_Set_snoc dedup_first_snoc snoc.IH by (simp add: set_add_def)
qed

subsection \<open>The postal code pattern\<close>

lemma digit_not_space: "is_digit c \<Longrightarrow> \<not> is_space c"
  by (auto simp: is_digit_def is_space_def)

lemma hyphen_not_space: "\<not> is_space CHR ''-''"
  by (simp add: is_space_def)

lemma hyphen_not_digit: "\<not> is_digit CHR ''-''"
  by (simp add: is_digit_def)

lemma zip_tail_length: "zip_tail z \<Longrightarrow> length z = 5 \<or> length z = 10"
  by (auto simp: zip_tail_def)

lemma zip_tail_hd: "zip_tail z \<Longrightarrow> z \<noteq> [] \<and> is_digit (hd z)"
proof -
  assume z: "zip_tail z"
  then have ne: "z \<noteq> []"
    by (auto simp: zip_tail_def)
  then obtain d ds where dd: "z = d # ds"
    by (cases z) auto
  with z have "is_digit d"
    by (auto simp: zip_tail_def)
  with dd show ?thesis by simp
qed

lemma zip_tail_no_space:
  assumes "zip_tail z" "c \<in> set z"
  shows "\<not> is_space c"
proof -
  from assms(1) consider (five) "length z = 5" "list_all is_digit z"
    | (nine) "length z = 10" "list_all is_digit (take 5 z)" "z ! 5 = CHR ''-''"
        "list_all is_digit (drop 6 z)"
    by (auto simp: zip_tail_def)
  then show ?thesis
  proof cases
    case five
    with assms(2) show ?thesis
      by (auto simp: list_all_iff digit_not_space)
  next
    case nine
    have e: "z = take 5 z @ z ! 5 # drop (Suc 5) z"
      using nine(1) by (intro id_take_nth_drop) simp
    have "set z = set (take 5 z @ z ! 5 # drop (Suc 5) z)"
      by (rule arg_cong [OF e])
    then have "set z = set (take 5 z) \<union> {z ! 5} \<union> set (drop 6 z)"
      by simp
    with assms(2) have "c \<in> set (take 5 z) \<or> c = z ! 5 \<or> c \<in> set (drop 6 z)"
      by blast
    then show ?thesis
    proof (elim disjE)
      assume "c \<in> set (take 5 z)"
      with nine(2) have "is_digit c" by (simp add: list_all_iff)
      then show ?thesis by (rule digit_not_space)
    next
      assume "c = z ! 5"
      with nine(3) show ?thesis by (simp add: hyphen_not_space)
    next
      assume "c \<in> set (drop 6 z)"
      with nine(4) have "is_digit c" by (simp add: list_all_iff)
      then show ?thesis by (rule digit_not_space)
    qed
  qed
qed

lemma zip_tail_drop5:
  assumes "zip_tail z" "length z = 10"
  shows "\<not> zip_tail (drop 5 z)"
proof
  assume d: "zip_tail (drop 5 z)"
  have "length (drop 5 z) = 5"
    using assms(2) by simp
  with d have "list_all is_digit (drop 5 z)"
    by (simp add: zip_tail_def)
  moreover have "drop 5 z = z ! 5 # drop (Suc 5) z"
    using assms(2) by (intro Cons_nth_drop_Suc [symmetric]) simp
  ultimately have "is_digit (z ! 5)"
    by simp
  moreover from assms have "z ! 5 = CHR ''-''"
    by (simp add: zip_tail_def)
  ultimately show False
    by (simp add: hyphen_not_digit)
qed

lemma suffix_drop:
  assumes "a @ z = a' @ z'" "length z + n = length z'"
  shows "z = drop n z'"
proof -
  have "length (a @ z) = length (a' @ z')"
    by (rule arg_cong [OF assms(1)])
  with assms(2) have len: "length a = length a' + n"
    by simp
  have "z = drop (length a) (a @ z)"
    by simp
  also have "\<dots> = drop (length a) (a' @ z')"
    by (simp only: assms(1))
  also have "\<dots> = drop n z'"
    by (simp add: len)
  finally show ?thesis .
qed

lemma zip_suffix_unique:
  assumes "a @ z = a' @ z'" "zip_tail z" "zip_tail z'"
  shows "a = a' \<and> z = z'"
proof -
  have same: "length z = length z'"
  proof (rule ccontr)
    assume ne: "length z \<noteq> length z'"
    from zip_tail_length [OF assms(2)] zip_tail_length [OF assms(3)] ne
    consider (short) "length z = 5" "length z' = 10" | (long) "length z = 10" "length z' = 5"
      by auto
    then show False
    proof cases
      case short
      have "z = drop 5 z'"
        using assms(1) by (rule suffix_drop) (simp add: short)
      with assms(2) zip_tail_drop5 [OF assms(3) short(2)] show False
        by simp
    next
      case long
      have "z' = drop 5 z"
        using assms(1) [symmetric] by (rule suffix_drop) (simp add: long)
      with assms(3) zip_tail_drop5 [OF assms(2) long(1)] show False
        by simp
    qed
  qed
  with assms(1) show ?thesis
    by simp
qed

lemma dropWhile_spaces_append:
  assumes "list_all is_space ws" "zip_tail z"
  shows "dropWhile is_space (ws @ z) = z"
proof -
  from zip_tail_hd [OF assms(2)] obtain d ds where z: "z = d # ds" and d: "is_digit d"
    by (cases z) auto
  have "dropWhile is_space (ws @ z) = dropWhile is_space z"
    using assms(1) by (intro dropWhile_append2) (simp add: list_all_iff)
  also have "\<dots> = z"
    using d by (simp add: z digit_not_space)
  finally show ?thesis .
qed

lemma zip_match_here_iff:
  "zip_match_here s \<longleftrightarrow>
     (\<exists>ws z. s = ws @ z \<and> ws \<noteq> [] \<and> list_all is_space ws \<and> zip_tail z)"
proof
  assume m: "zip_match_here s"
  let ?ws = "takeWhile is_space s" and ?z = "dropWhile is_space s"
  from m have "length ?z < length s" "zip_tail ?z"
    by (simp_all add: zip_match_here_def Let_def)
  moreover have s: "s = ?ws @ ?z"
    by simp
  moreover have "length s = length ?ws + length ?z"
    by (metis s length_append)
  ultimately have "?ws \<noteq> []"
    by auto
  moreover have "list_all is_space ?ws"
    by (simp add: list_all_iff) (meson set_takeWhileD)
  ultimately show "\<exists>ws z. s = ws @ z \<and> ws \<noteq> [] \<and> list_all is_space ws \<and> zip_tail z"
    using s \<open>zip_tail ?z\<close> by blast
next
  assume "\<exists>ws z. s = ws @ z \<and> ws \<noteq> [] \<and> list_all is_space ws \<and> zip_tail z"
  then obtain ws z where s: "s = ws @ z" and ws: "ws \<noteq> []" "list_all is_space ws"
    and z: "zip_tail z"
    by blast
  have "dropWhile is_space s = z"
    unfolding s using ws(2) z by (rule dropWhile_spaces_append)
  with ws(1) z show "zip_match_here s"
    by (simp add: zip_match_here_def Let_def s)
qed

subsection \<open>What the replacement removes\<close>

lemma strip_zip_split:
  assumes "p = pre @ z" "pre \<noteq> []" "is_space (last pre)" "zip_tail z"
  shows "\<exists>w. pre = strip_zip p @ w \<and> list_all is_space w"
  using assms
proof (induction p arbitrary: pre)
  case Nil
  then show ?case by simp
next
  case (Cons c cs)
  show ?case
  proof (cases "zip_match_here (c # cs)")
    case True
    then obtain ws z0 where s: "c # cs = ws @ z0" and ws: "ws \<noteq> []" "list_all is_space ws"
      and z0: "zip_tail z0"
      unfolding zip_match_here_iff by blast
    from Cons.prems(1) s have "ws @ z0 = pre @ z"
      by simp
    from zip_suffix_unique [OF this z0 Cons.prems(4)] have "pre = ws"
      by simp
    with True ws(2) show ?thesis
      by simp
  next
    case False
    from Cons.prems(1,2) obtain pre' where pre: "pre = c # pre'" and cs: "cs = pre' @ z"
      by (cases pre) auto
    have ne: "pre' \<noteq> []"
    proof
      assume e: "pre' = []"
      with pre Cons.prems(3) have "is_space c"
        by simp
      then have "\<exists>ws z0. c # cs = ws @ z0 \<and> ws \<noteq> [] \<and> list_all is_space ws \<and> zip_tail z0"
        using cs e Cons.prems(4) by (intro exI [of _ "[c]"] exI [of _ z]) simp
      with False show False
        unfolding zip_match_here_iff by blast
    qed
    with pre Cons.prems(3) have "is_space (last pre')"
      by simp
    from Cons.IH [OF cs ne this Cons.prems(4)]
    obtain w where "pre' = strip_zip cs @ w" "list_all is_space w"
      by blast
    with False pre show ?thesis
      by simp
  qed
qed

lemma strip_zip_no_split:
  assumes "\<And>pre z. p = pre @ z \<Longrightarrow> pre \<noteq> [] \<Longrightarrow> is_space (last pre) \<Longrightarrow> \<not> zip_tail z"
  shows "strip_zip p = p"
  using assms
proof (induction p)
  case Nil
  then show ?case by simp
next
  case (Cons c cs)
  have no: "\<not> zip_match_here (c # cs)"
  proof
    assume "zip_match_here (c # cs)"
    then obtain ws z0 where s: "c # cs = ws @ z0" and ws: "ws \<noteq> []" "list_all is_space ws"
      and z0: "zip_tail z0"
      unfolding zip_match_here_iff by blast
    from ws have "is_space (last ws)"
      by (simp add: list_all_iff)
    from Cons.prems [OF s ws(1) this] z0 show False
      by simp
  qed
  have "strip_zip cs = cs"
  proof (rule Cons.IH)
    fix pre z
    assume a: "cs = pre @ z" "pre \<noteq> []" "is_space (last pre)"
    then have "c # cs = (c # pre) @ z" "c # pre \<noteq> []" "is_space (last (c # pre))"
      by simp_all
    then show "\<not> zip_tail z"
      by (rule Cons.prems)
  qed
  with no show ?case
    by simp
qed

subsection \<open>What the specification removes\<close>

lemma ends_with_postal_split:
  assumes "p = pre @ z" "pre \<noteq> []" "is_space (last pre)" "zip_tail z"
  shows "ends_with_postal (length z) p \<and> take (length p - length z) p = pre"
proof -
  have "length p - length z - 1 = length pre - 1"
    by (simp add: assms(1))
  then have "p ! (length p - length z - 1) = last pre"
    using assms(2) by (simp add: assms(1) nth_append last_conv_nth)
  moreover have "drop (length p - length z) p = z"
    by (simp add: assms(1))
  moreover have "length z < length p"
    using assms(2) by (simp add: assms(1))
  ultimately show ?thesis
    using assms(3,4) by (simp add: ends_with_postal_def assms(1))
qed

lemma ends_with_postal_elim:
  assumes "ends_with_postal k p"
  shows "\<exists>pre z. p = pre @ z \<and> pre \<noteq> [] \<and> is_space (last pre) \<and> zip_tail z \<and>
           length z = k \<and> take (length p - k) p = pre"
proof -
  let ?pre = "take (length p - k) p" and ?z = "drop (length p - k) p"
  from assms have k: "k < length p" and sp: "is_space (p ! (length p - k - 1))"
    and z: "zip_tail ?z" and lz: "length ?z = k"
    by (simp_all add: ends_with_postal_def)
  have p: "p = ?pre @ ?z"
    by simp
  have ne: "?pre \<noteq> []"
    using k by auto
  have "last ?pre = ?pre ! (length ?pre - 1)"
    using ne by (rule last_conv_nth)
  also have "\<dots> = p ! (length p - k - 1)"
    using k by simp
  finally have "is_space (last ?pre)"
    using sp by simp
  with p ne z lz show ?thesis
    by blast
qed

lemma spec_strip_postal_split:
  assumes "p = pre @ z" "pre \<noteq> []" "is_space (last pre)" "zip_tail z"
  shows "spec_strip_postal p = pre"
proof -
  note e = ends_with_postal_split [OF assms]
  from zip_tail_length [OF assms(4)] show ?thesis
  proof
    assume "length z = 5"
    with e show ?thesis
      by (simp add: spec_strip_postal_def)
  next
    assume l: "length z = 10"
    have "\<not> ends_with_postal 5 p"
    proof
      assume "ends_with_postal 5 p"
      from ends_with_postal_elim [OF this] obtain pre' z' where
        "p = pre' @ z'" "zip_tail z'" "length z' = 5"
        by blast
      with assms(1) have "pre @ z = pre' @ z'"
        by simp
      from zip_suffix_unique [OF this assms(4) \<open>zip_tail z'\<close>] l \<open>length z' = 5\<close>
      show False
        by simp
    qed
    with e l show ?thesis
      by (simp add: spec_strip_postal_def)
  qed
qed

lemma spec_strip_postal_no_split:
  assumes "\<And>pre z. p = pre @ z \<Longrightarrow> pre \<noteq> [] \<Longrightarrow> is_space (last pre) \<Longrightarrow> \<not> zip_tail z"
  shows "spec_strip_postal p = p"
proof -
  have "\<not> ends_with_postal k p" for k
  proof
    assume "ends_with_postal k p"
    from ends_with_postal_elim [OF this] assms show False
      by blast
  qed
  then show ?thesis
    by (simp add: spec_strip_postal_def)
qed

subsection \<open>The script's tokens are the specification's tokens\<close>

lemma trim_append_spaces:
  assumes "list_all is_space w"
  shows "trim (x @ w) = trim x"
proof (cases "list_all is_space x")
  case True
  with assms have "dropWhile is_space (x @ w) = []" "dropWhile is_space x = []"
    by (simp_all add: list_all_iff)
  then show ?thesis
    by (simp only: trim_def)
next
  case False
  then obtain c where "c \<in> set x" "\<not> is_space c"
    by (auto simp: list_all_iff)
  then have "dropWhile is_space (x @ w) = dropWhile is_space x @ w"
    by (rule dropWhile_append1)
  then have "dropWhile is_space (rev (dropWhile is_space (x @ w))) =
             dropWhile is_space (rev w @ rev (dropWhile is_space x))"
    by simp
  also have "\<dots> = dropWhile is_space (rev (dropWhile is_space x))"
    using assms by (intro dropWhile_append2) (simp add: list_all_iff)
  finally show ?thesis
    by (simp only: trim_def)
qed

lemma trim_strip_zip_spec: "trim (strip_zip p) = trim (spec_strip_postal p)"
proof (cases "\<exists>pre z. p = pre @ z \<and> pre \<noteq> [] \<and> is_space (last pre) \<and> zip_tail z")
  case True
  then obtain pre z where h: "p = pre @ z" "pre \<noteq> []" "is_space (last pre)" "zip_tail z"
    by blast
  from strip_zip_split [OF h] obtain w where w: "pre = strip_zip p @ w" "list_all is_space w"
    by blast
  have "trim (spec_strip_postal p) = trim pre"
    by (simp only: spec_strip_postal_split [OF h])
  also have "\<dots> = trim (strip_zip p @ w)"
    using w(1) by (rule arg_cong)
  also have "\<dots> = trim (strip_zip p)"
    using w(2) by (rule trim_append_spaces)
  finally show ?thesis ..
next
  case False
  then have n: "\<And>pre z. p = pre @ z \<Longrightarrow> pre \<noteq> [] \<Longrightarrow> is_space (last pre) \<Longrightarrow> \<not> zip_tail z"
    by blast
  have "strip_zip p = p"
    by (rule strip_zip_no_split) (rule n)
  moreover have "spec_strip_postal p = p"
    by (rule spec_strip_postal_no_split) (rule n)
  ultimately show ?thesis
    by simp
qed

lemma search_terms_spec: "search_terms query = spec_tokens query"
proof -
  have "(\<lambda>p. 2 \<le> length p) = (\<lambda>t :: string. \<not> length t < 2)"
    by (simp add: fun_eq_iff not_less)
  then show ?thesis
    by (simp add: search_terms_def spec_tokens_def rawParts_def new_Set_dedup_first
        trim_strip_zip_spec)
qed

subsection \<open>Labels\<close>

lemma state_candidates_label:
  "(k, s) \<in> set (state_candidates t st) \<Longrightarrow>
     label s \<in> {name st} \<union> set (obj_keys (cities st)) \<union> set (obj_keys (counties st))"
  by (auto simp: state_candidates_def state_result_def city_result_def county_result_def
        split: if_splits)

lemma discovery_order_label:
  assumes "(k, s) \<in> set (discovery_order J terms)"
  shows "label s \<in> store_names J"
proof -
  from assms obtain t st where st: "st \<in> set (obj_values J)"
    and ks: "(k, s) \<in> set (state_candidates t st)"
    by (auto simp: discovery_order_def)
  from state_candidates_label [OF ks] st show ?thesis
    unfolding store_names_def by blast
qed

lemma first_occurrences_subset:
  "x \<in> set (first_occurrences seen cands) \<Longrightarrow> \<exists>k. (k, x) \<in> set cands"
proof (induction cands arbitrary: seen)
  case Nil
  then show ?case by simp
next
  case (Cons kx rest)
  obtain k y where kx: "kx = (k, y)"
    by (cases kx)
  from Cons.prems have "x = y \<or> (\<exists>seen'. x \<in> set (first_occurrences seen' rest))"
    by (auto simp: kx split: if_splits)
  then show ?case
    using Cons.IH by (auto simp: kx)
qed

lemma suggestion_label_in_store:
  assumes "r \<in> set (buildSuggestions J query)"
  shows "label r \<in> store_names J"
proof -
  from assms have "r \<in> set (first_occurrences [] (discovery_order J (search_terms query)))"
    unfolding buildSuggestions_discovery by (rule in_set_takeD)
  from first_occurrences_subset [OF this] obtain k where
    "(k, r) \<in> set (discovery_order J (search_terms query))"
    by blast
  then show ?thesis
    by (rule discovery_order_label)
qed

lemma stripped_suffix_has_digit:
  assumes "z \<noteq> []" "t = strip_zip t @ z"
  shows "\<exists>d \<in> set z. is_digit d"
proof -
  from assms have "strip_zip t \<noteq> t"
    by (metis append_self_conv)
  then obtain pre z0 where h: "t = pre @ z0" "pre \<noteq> []" "is_space (last pre)" "zip_tail z0"
    using strip_zip_no_split [of t] by blast
  from strip_zip_split [OF h] obtain w where "pre = strip_zip t @ w"
    by blast
  with h(1) have "t = strip_zip t @ (w @ z0)"
    by simp
  with assms(2) have "strip_zip t @ z = strip_zip t @ (w @ z0)"
    by (metis)
  then have "z = w @ z0"
    by simp
  moreover from zip_tail_hd [OF h(4)] have "hd z0 \<in> set z0" "is_digit (hd z0)"
    by simp_all
  ultimately show ?thesis
    by auto
qed

lemma occurs_in_set: "occurs_in z s \<Longrightarrow> set z \<subseteq> set s"
  by (auto simp: occurs_in_def)

text \<open>
  Claim C7, amended. The terms the search uses are the tokens of the specification: the
  query split on commas, each piece trimmed, a trailing postal code (5 digits, or 5
  digits, a hyphen and 4 digits) removed when white space comes before it, the piece
  trimmed again, equal tokens de-duplicated keeping the first, and tokens shorter than 2
  characters discarded. Every label is a state name or a city or county key of the store,
  never text of the query; so when no name of the store contains a digit, no suffix that
  was stripped from a piece occurs in a label.
\<close>

theorem tokens_and_labels:
  "search_terms query = spec_tokens query \<and>
   (\<forall>r \<in> set (buildSuggestions J query). label r \<in> store_names J) \<and>
   ((\<forall>n \<in> store_names J. \<not> list_ex is_digit n) \<longrightarrow>
      (\<forall>p \<in> set (split_comma query). \<forall>z.
          z \<noteq> [] \<and> trim p = strip_zip (trim p) @ z \<longrightarrow>
          (\<forall>r \<in> set (buildSuggestions J query). \<not> occurs_in z (label r))))"
proof (intro conjI ballI impI allI)
  show "search_terms query = spec_tokens query"
    by (rule search_terms_spec)
next
  fix r assume "r \<in> set (buildSuggestions J query)"
  then show "label r \<in> store_names J"
    by (rule suggestion_label_in_store)
next
  fix p z r
  assume names: "\<forall>n \<in> store_names J. \<not> list_ex is_digit n"
    and z: "z \<noteq> [] \<and> trim p = strip_zip (trim p) @ z"
    and r: "r \<in> set (buildSuggestions J query)"
  from z stripped_suffix_has_digit [of z "trim p"] obtain d where d: "d \<in> set z" "is_digit d"
    by blast
  from names suggestion_label_in_store [OF r] have no: "\<not> list_ex is_digit (label r)"
    by blast
  show "\<not> occurs_in z (label r)"
  proof
    assume "occurs_in z (label r)"
    from occurs_in_set [OF this] d have "list_ex is_digit (label r)"
      by (auto simp: list_ex_iff)
    with no show False ..
  qed
qed

lemma numbered_lower:
  "toLowerCase ''Area'' = ''area''"
  "toLowerCase ''Area 85001'' = ''area 85001''"
  by (simp_all add: toLowerCase_def lower_char_def char_of_eq_iff)

lemma match_numbered:
  "\<not> zip_match_here ''Area 85001''" "\<not> zip_match_here ''rea 85001''"
  "\<not> zip_match_here ''ea 85001''" "\<not> zip_match_here ''a 85001''"
  "zip_match_here '' 85001''"
  by (simp_all add: zip_match_here_def zip_tail_def is_space_def is_digit_def)

lemma strip_numbered: "strip_zip ''Area 85001'' = ''Area''"
  by (simp add: match_numbered)

lemma trim_numbered: "trim ''Area 85001'' = ''Area 85001''" "trim ''Area'' = ''Area''"
  by (simp_all add: trim_def is_space_def)

lemma terms_numbered: "search_terms ''Area 85001'' = [''Area'']"
  by (simp add: search_terms_def rawParts_def new_Set_def set_add_def trim_numbered strip_numbered
        del: strip_zip.simps)

lemma numbered_fields:
  "obj_values numbered_store = [alabama \<lparr> cities := [(''Area 85001'', mobile)], counties := [] \<rparr>]"
  "obj_keys (cities (alabama \<lparr> cities := [(''Area 85001'', mobile)], counties := [] \<rparr>)) = [''Area 85001'']"
  "obj_keys (counties (alabama \<lparr> cities := [(''Area 85001'', mobile)], counties := [] \<rparr>)) = []"
  "name (alabama \<lparr> cities := [(''Area 85001'', mobile)], counties := [] \<rparr>) = ''Alabama''"
  "abbr (alabama \<lparr> cities := [(''Area 85001'', mobile)], counties := [] \<rparr>) = ''AL''"
  by (simp_all add: numbered_store_def obj_values_def obj_keys_def alabama_fields)

lemma zip_match_here_long: "zip_match_here s \<Longrightarrow> 6 \<le> length s"
proof -
  assume "zip_match_here s"
  then obtain ws z where "s = ws @ z" "ws \<noteq> []" "zip_tail z"
    unfolding zip_match_here_iff by blast
  moreover from zip_tail_length [OF \<open>zip_tail z\<close>] have "5 \<le> length z"
    by auto
  moreover have "1 \<le> length ws"
    using \<open>ws \<noteq> []\<close> by (cases ws) simp_all
  ultimately show ?thesis
    by simp
qed

lemma strip_zip_short: "length s < 6 \<Longrightarrow> strip_zip s = s"
proof (induction s)
  case Nil
  then show ?case by simp
next
  case (Cons c cs)
  from Cons.prems zip_match_here_long [of "c # cs"] have "\<not> zip_match_here (c # cs)"
    by auto
  moreover from Cons have "strip_zip cs = cs"
    by simp
  ultimately show ?case
    by simp
qed

lemma terms_bare_zip: "search_terms ''AZ, 85001'' = [''AZ'', ''85001'']"
proof -
  have "split_comma ''AZ, 85001'' = [''AZ'', '' 85001'']"
    by simp
  moreover have "trim ''AZ'' = ''AZ''" "trim '' 85001'' = ''85001''" "trim ''85001'' = ''85001''"
    by (simp_all add: trim_def is_space_def)
  moreover have "strip_zip ''AZ'' = ''AZ''" "strip_zip ''85001'' = ''85001''"
    by (simp_all add: strip_zip_short del: strip_zip.simps)
  ultimately show ?thesis
    by (simp add: search_terms_def rawParts_def new_Set_def set_add_def
          del: strip_zip.simps split_comma.simps)
qed

text \<open>
  Claim C7, as stated, fails twice. A postal code that is a piece of its own has no white
  space before it and is not stripped: "AZ, 85001" keeps the token 85001. And a label is
  a name of the store, so a store with a city called "Area 85001" answers the query
  "Area 85001", whose suffix " 85001" is stripped, with that very label.
\<close>

theorem bare_zip_kept_and_zip_in_label:
  "search_terms ''AZ, 85001'' = [''AZ'', ''85001''] \<and>
   trim ''Area 85001'' = strip_zip (trim ''Area 85001'') @ '' 85001'' \<and>
   map label (buildSuggestions numbered_store ''Area 85001'') = [''Area'' @ '' 85001'']"
proof -
  have "discovery_order numbered_store [''Area''] =
      [(city_key (alabama \<lparr> cities := [(''Area 85001'', mobile)], counties := [] \<rparr>) ''Area 85001'',
        city_result (alabama \<lparr> cities := [(''Area 85001'', mobile)], counties := [] \<rparr>) ''Area 85001'')]"
    by (simp add: discovery_order_def state_candidates_def numbered_fields numbered_lower lower_facts
          obj_keys_def)
  then have "map label (buildSuggestions numbered_store ''Area 85001'') = [''Area 85001'']"
    by (simp add: buildSuggestions_discovery terms_numbered city_result_def)
  then show ?thesis
    using terms_bare_zip by (simp add: trim_numbered strip_numbered del: strip_zip.simps)
qed

lemma excerpt_digit_free: "\<forall>n \<in> store_names excerpt. \<not> list_ex is_digit n"
  by (simp add: store_names_def excerpt_values alabama_fields stub_fields is_digit_def)

lemma match_mobile:
  "\<not> zip_match_here ''AL 36602''" "\<not> zip_match_here ''L 36602''"
  "zip_match_here '' 36602''"
  by (simp_all add: zip_match_here_def zip_tail_def is_space_def is_digit_def)

lemma piece_mobile:
  "'' AL 36602'' \<in> set (split_comma ''Mobile, AL 36602'')"
  "'' 36602'' \<noteq> [] \<and> trim '' AL 36602'' = strip_zip (trim '' AL 36602'') @ '' 36602''"
proof -
  show "'' AL 36602'' \<in> set (split_comma ''Mobile, AL 36602'')"
    by simp
  have "trim '' AL 36602'' = ''AL 36602''"
    by (simp add: trim_def is_space_def)
  moreover have "strip_zip ''AL 36602'' = ''AL''"
    by (simp add: match_mobile)
  ultimately show "'' 36602'' \<noteq> [] \<and> trim '' AL 36602'' = strip_zip (trim '' AL 36602'') @ '' 36602''"
    by (simp del: strip_zip.simps)
qed

theorem tokens_and_labels_witness:
  "search_terms ''Mobile, AL 36602'' = spec_tokens ''Mobile, AL 36602'' \<and>
   list_all (\<lambda>r. label r \<in> store_names excerpt \<and> \<not> occurs_in '' 36602'' (label r))
     (buildSuggestions excerpt ''Mobile, AL 36602'')"
proof -
  note t = tokens_and_labels [of "''Mobile, AL 36602''" excerpt]
  from t have a: "search_terms ''Mobile, AL 36602'' = spec_tokens ''Mobile, AL 36602''"
    by (rule conjunct1)
  from t have b: "\<forall>r \<in> set (buildSuggestions excerpt ''Mobile, AL 36602''). label r \<in> store_names excerpt"
    by (rule conjunct1 [OF conjunct2])
  from t have "(\<forall>n \<in> store_names excerpt. \<not> list_ex is_digit n) \<longrightarrow>
      (\<forall>p \<in> set (split_comma ''Mobile, AL 36602''). \<forall>z.
          z \<noteq> [] \<and> trim p = strip_zip (trim p) @ z \<longrightarrow>
          (\<forall>r \<in> set (buildSuggestions excerpt ''Mobile, AL 36602''). \<not> occurs_in z (label r)))"
    by (rule conjunct2 [OF conjunct2])
  with excerpt_digit_free have "\<forall>p \<in> set (split_comma ''Mobile, AL 36602''). \<forall>z.
          z \<noteq> [] \<and> trim p = strip_zip (trim p) @ z \<longrightarrow>
          (\<forall>r \<in> set (buildSuggestions excerpt ''Mobile, AL 36602''). \<not> occurs_in z (label r))"
    by (rule rev_mp)
  from bspec [OF this piece_mobile(1)]
  have "'' 36602'' \<noteq> [] \<and> trim '' AL 36602'' = strip_zip (trim '' AL 36602'') @ '' 36602'' \<longrightarrow>
          (\<forall>r \<in> set (buildSuggestions excerpt ''Mobile, AL 36602''). \<not> occurs_in '' 36602'' (label r))"
    by (rule spec)
  with piece_mobile(2)
  have c: "\<forall>r \<in> set (buildSuggestions excerpt ''Mobile, AL 36602''). \<not> occurs_in '' 36602'' (label r)"
    by (rule rev_mp)
  from a b c show ?thesis
    unfolding list_all_iff by blast
qed

end
